theory Spec2Isabelle
  imports Complex_Main "HOL-Library.Word" "HOL-Library.AList"
begin

unbundle bit_operations_syntax

section \<open>Data model\<close>

text \<open>
  A \<open>Uint8Array\<close> is a sequence of bytes. A JavaScript string is a sequence of code
  units; the model keeps the 8-bit ones (\<open>string\<close>).
\<close>

type_synonym byte = "8 word"
type_synonym Uint8Array = "byte list"

text \<open>
  A JavaScript number: a finite double, given by the real number it denotes, an
  infinity, or \<open>NaN\<close>. The two zeros are one value here: nothing the engine does tells
  them apart.
\<close>

datatype number = Num real | PlusInfinity | MinusInfinity | NaN

text \<open>\<open>a <= b\<close> and \<open>a > b\<close> on numbers: both are false when an operand is \<open>NaN\<close>.\<close>

fun number_le :: "number \<Rightarrow> number \<Rightarrow> bool" where
  "number_le (Num x) (Num y) = (x \<le> y)"
| "number_le NaN b = False"
| "number_le a NaN = False"
| "number_le MinusInfinity b = True"
| "number_le a PlusInfinity = True"
| "number_le a b = False"

fun number_gt :: "number \<Rightarrow> number \<Rightarrow> bool" where
  "number_gt (Num x) (Num y) = (x > y)"
| "number_gt NaN b = False"
| "number_gt a NaN = False"
| "number_gt MinusInfinity b = False"
| "number_gt a PlusInfinity = False"
| "number_gt a b = True"

text \<open>
  A \<open>Date\<close> object: its time value in milliseconds, or \<open>Invalid Date\<close>. \<open>new Date(v)\<close> on a
  number \<open>v\<close> is invalid when \<open>v\<close> is not finite or exceeds 8.64e15 in magnitude, and
  keeps the whole part of \<open>v\<close> (rounded towards zero) otherwise.
\<close>

datatype Date = Date int | InvalidDate

definition new_Date :: "number \<Rightarrow> Date" where
  "new_Date v =
     (case v of
        Num x \<Rightarrow>
          if \<bar>x\<bar> \<le> 8640000000000000 then Date (if 0 \<le> x then \<lfloor>x\<rfloor> else \<lceil>x\<rceil>)
          else InvalidDate
      | _ \<Rightarrow> InvalidDate)"

subsection \<open>Errors (\<open>src/errors.ts\<close>)\<close>

text \<open>
  \<open>KeyError\<close> is one class (code \<open>TECTO_KEY_ERROR\<close>); its instances differ by message.
  Each message template of the source is one constructor, carrying the values the
  template interpolates:
  \<^item> \<open>NotUint8Array\<close>: "Key must be a Uint8Array. ..." (\<open>security.ts\<close>),
  \<^item> \<open>WrongLength n\<close>: "Key must be exactly 32 bytes (256-bit). Received n bytes.",
  \<^item> \<open>AllZeros\<close>: "Key must not be all zeros. ...",
  \<^item> \<open>RepeatingByte\<close>: "Key must not be a repeating single byte. ...",
  \<^item> \<open>InsufficientEntropy n\<close>: "Key has insufficient entropy: only n unique byte values. ...",
  \<^item> \<open>KeyNotFound id\<close>: "Key not found: "id"" (\<open>keystore.ts\<close>),
  \<^item> \<open>CannotRemoveCurrent\<close>: "Cannot remove the current active key. Rotate to a new key first.",
  \<^item> \<open>NoKeys\<close>: "No keys in the store. Add a key with addKey() first.".
\<close>

datatype key_message =
    NotUint8Array
  | WrongLength nat
  | AllZeros
  | RepeatingByte
  | InsufficientEntropy nat
  | KeyNotFound string
  | CannotRemoveCurrent
  | NoKeys

text \<open>
  \<open>TectoError\<close> itself is raised only by \<open>parseDuration\<close>, with code
  \<open>TECTO_INVALID_DURATION\<close>: \<open>InvalidDurationFormat d\<close> is "Invalid duration format: "d". ..."
  and \<open>UnknownDurationUnit u\<close> is "Unknown duration unit: "u"".
\<close>

datatype duration_message =
    InvalidDurationFormat string
  | UnknownDurationUnit string

text \<open>
  The exceptions a call can end with. The first five are the classes of \<open>errors.ts\<close>.
  \<open>JsTypeError\<close> and \<open>LibraryError\<close> are exceptions that are not \<open>TectoError\<close>s: a
  property read on \<open>null\<close>, and an \<open>Error\<close> thrown by a library called outside any
  \<open>try\<close> block.
\<close>

datatype error =
    TectoError duration_message
  | TokenExpiredError Date
  | InvalidSignatureError
  | KeyError key_message
  | TokenNotActiveError Date
  | JsTypeError
  | LibraryError

section \<open>Security primitives (\<open>src/security.ts\<close>)\<close>

definition KEY_LENGTH :: nat where
  "KEY_LENGTH = 32"

definition MIN_UNIQUE_BYTES :: nat where
  "MIN_UNIQUE_BYTES = 8"

text \<open>\<open>key[i] ?? 0\<close>: a read past the end of a typed array is \<open>undefined\<close>.\<close>

definition at_or_0 :: "Uint8Array \<Rightarrow> nat \<Rightarrow> byte" where
  "at_or_0 key i = (if i < length key then key ! i else 0)"

text \<open>
  The first loop of \<open>assertEntropy\<close>, started at index \<open>i\<close>; the result is the value of
  \<open>isAllZeros\<close> when the loop ends (\<open>break\<close> leaves it \<open>false\<close>).
\<close>

function isAllZeros_loop :: "Uint8Array \<Rightarrow> nat \<Rightarrow> bool" where
  "isAllZeros_loop key i =
     (if i < length key
      then (if at_or_0 key i \<noteq> 0 then False else isAllZeros_loop key (i + 1))
      else True)"
  by pat_completeness auto
termination
  by (relation "measure (\<lambda>(key, i). length key - i)") auto

text \<open>The second loop, from index \<open>i\<close>: the value of \<open>isRepeating\<close> when it ends.\<close>

function isRepeating_loop :: "Uint8Array \<Rightarrow> byte \<Rightarrow> nat \<Rightarrow> bool" where
  "isRepeating_loop key firstByte i =
     (if i < length key
      then (if at_or_0 key i \<noteq> firstByte then False else isRepeating_loop key firstByte (i + 1))
      else True)"
  by pat_completeness auto
termination
  by (relation "measure (\<lambda>(key, firstByte, i). length key - i)") auto

text \<open>
  The third loop: \<open>uniqueBytes\<close> is a \<open>Set\<close>, kept here as the list of its members in
  insertion order; \<open>add\<close> leaves the set alone when the member is there already.
\<close>

function uniqueBytes_loop :: "Uint8Array \<Rightarrow> byte list \<Rightarrow> nat \<Rightarrow> byte list" where
  "uniqueBytes_loop key uniqueBytes i =
     (if i < length key
      then uniqueBytes_loop key
             (if at_or_0 key i \<in> set uniqueBytes then uniqueBytes
              else uniqueBytes @ [at_or_0 key i]) (i + 1)
      else uniqueBytes)"
  by pat_completeness auto
termination
  by (relation "measure (\<lambda>(key, uniqueBytes, i). length key - i)") auto

declare isAllZeros_loop.simps [simp del]
declare isRepeating_loop.simps [simp del]
declare uniqueBytes_loop.simps [simp del]

text \<open>
  \<open>assertEntropy\<close>. The \<open>instanceof Uint8Array\<close> test cannot fail on a value of the
  parameter's type and has no branch here.
\<close>

definition assertEntropy :: "Uint8Array \<Rightarrow> error + unit" where
  "assertEntropy key =
     (if length key \<noteq> KEY_LENGTH then Inl (KeyError (WrongLength (length key)))
      else if isAllZeros_loop key 0 then Inl (KeyError AllZeros)
      else if isRepeating_loop key (at_or_0 key 0) 1 then Inl (KeyError RepeatingByte)
      else (let uniqueBytes = uniqueBytes_loop key [] 0 in
            if length uniqueBytes < MIN_UNIQUE_BYTES
            then Inl (KeyError (InsufficientEntropy (length uniqueBytes)))
            else Inr ()))"

section \<open>Key store (\<open>src/keystore.ts\<close>)\<close>

text \<open>
  A \<open>MemoryKeyStore\<close> holds a \<open>Map\<close> from key id to a \<open>Uint8Array\<close> object and the
  current key id (\<open>null\<close> is \<open>None\<close>). The map holds references: \<open>getKey\<close> hands out
  the stored object itself and \<open>removeKey\<close> writes into it. So the byte arrays the
  store allocates live in \<open>buffers\<close>, addressed by reference; \<open>fresh\<close> is the next
  reference \<open>new Uint8Array\<close> returns. The \<open>Map\<close> is an association list in insertion
  order (\<open>set\<close> on a present key keeps its place).
\<close>

type_synonym ref = nat

record MemoryKeyStore =
  buffers :: "ref \<Rightarrow> Uint8Array"
  fresh :: ref
  keys :: "(string \<times> ref) list"
  currentKeyId :: "string option"

definition new_MemoryKeyStore :: MemoryKeyStore where
  "new_MemoryKeyStore = \<lparr>buffers = (\<lambda>r. []), fresh = 0, keys = [], currentKeyId = None\<rparr>"

text \<open>\<open>dst.set(src)\<close> for \<open>src\<close> no longer than \<open>dst\<close>, and \<open>buf.fill(0)\<close>.\<close>

definition set_bytes :: "Uint8Array \<Rightarrow> Uint8Array \<Rightarrow> Uint8Array" where
  "set_bytes dst src = src @ drop (length src) dst"

definition fill_0 :: "Uint8Array \<Rightarrow> Uint8Array" where
  "fill_0 buf = map (\<lambda>b. 0) buf"

text \<open>
  Every operation returns what the call returned or threw, and the store as the call
  left it: a throw keeps whatever was written before it.
\<close>

definition addKey :: "MemoryKeyStore \<Rightarrow> string \<Rightarrow> Uint8Array \<Rightarrow> (error + unit) \<times> MemoryKeyStore" where
  "addKey s id' secret =
     (case assertEntropy secret of
        Inl e \<Rightarrow> (Inl e, s)
      | Inr u \<Rightarrow>
         (let cloned = fresh s;
              s1 = s\<lparr>buffers := (buffers s)(cloned := replicate (length secret) 0),
                     fresh := Suc cloned\<rparr>;
              s2 = s1\<lparr>buffers := (buffers s1)(cloned := set_bytes (buffers s1 cloned) secret)\<rparr>;
              s3 = s2\<lparr>keys := AList.update id' cloned (keys s2)\<rparr>;
              s4 = (if currentKeyId s3 = None then s3\<lparr>currentKeyId := Some id'\<rparr> else s3)
          in (Inr (), s4)))"

definition getKey :: "MemoryKeyStore \<Rightarrow> string \<Rightarrow> error + ref" where
  "getKey s id' =
     (case map_of (keys s) id' of
        None \<Rightarrow> Inl (KeyError (KeyNotFound id'))
      | Some key \<Rightarrow> Inr key)"

definition rotate :: "MemoryKeyStore \<Rightarrow> string \<Rightarrow> Uint8Array \<Rightarrow> (error + unit) \<times> MemoryKeyStore" where
  "rotate s newId newSecret =
     (case addKey s newId newSecret of
        (Inl e, s1) \<Rightarrow> (Inl e, s1)
      | (Inr u, s1) \<Rightarrow> (Inr (), s1\<lparr>currentKeyId := Some newId\<rparr>))"

definition removeKey :: "MemoryKeyStore \<Rightarrow> string \<Rightarrow> (error + unit) \<times> MemoryKeyStore" where
  "removeKey s id' =
     (case map_of (keys s) id' of
        None \<Rightarrow> (Inl (KeyError (KeyNotFound id')), s)
      | Some key \<Rightarrow>
         (if currentKeyId s = Some id' then (Inl (KeyError CannotRemoveCurrent), s)
          else (let s1 = s\<lparr>buffers := (buffers s)(key := fill_0 (buffers s key))\<rparr>;
                    s2 = s1\<lparr>keys := AList.delete id' (keys s1)\<rparr>
                in (Inr (), s2))))"

definition getCurrentKeyId :: "MemoryKeyStore \<Rightarrow> error + string" where
  "getCurrentKeyId s =
     (case currentKeyId s of
        None \<Rightarrow> Inl (KeyError NoKeys)
      | Some id' \<Rightarrow> Inr id')"

definition size_keys :: "MemoryKeyStore \<Rightarrow> nat" where
  "size_keys s = length (keys s)"

text \<open>
  The secret stored under an id: the bytes of the buffer the map refers to.
\<close>

definition secret_of :: "MemoryKeyStore \<Rightarrow> string \<Rightarrow> Uint8Array option" where
  "secret_of s id' = map_option (buffers s) (map_of (keys s) id')"

text \<open>A call of the store's interface, and the store after a sequence of calls.\<close>

datatype call =
    AddKey string Uint8Array
  | GetKey string
  | Rotate string Uint8Array
  | RemoveKey string
  | GetCurrentKeyId
  | Size

fun exec :: "MemoryKeyStore \<Rightarrow> call \<Rightarrow> MemoryKeyStore" where
  "exec s (AddKey id' secret) = snd (addKey s id' secret)"
| "exec s (GetKey id') = s"
| "exec s (Rotate newId newSecret) = snd (rotate s newId newSecret)"
| "exec s (RemoveKey id') = snd (removeKey s id')"
| "exec s GetCurrentKeyId = s"
| "exec s Size = s"

definition run :: "call list \<Rightarrow> MemoryKeyStore" where
  "run calls = foldl exec new_MemoryKeyStore calls"

text \<open>
  What the store keeps true of itself: ids and references are unique, every reference
  was allocated and holds a secret that passed \<open>assertEntropy\<close>, and the current id is
  \<open>null\<close> only while the map is empty and names a stored key otherwise.
\<close>

definition store_ok :: "MemoryKeyStore \<Rightarrow> bool" where
  "store_ok s =
     (distinct (map fst (keys s)) \<and> distinct (map snd (keys s)) \<and>
      list_all (\<lambda>(k, r). r < fresh s \<and> assertEntropy (buffers s r) = Inr ()) (keys s) \<and>
      (case currentKeyId s of None \<Rightarrow> keys s = [] | Some c \<Rightarrow> map_of (keys s) c \<noteq> None))"

section \<open>Token engine (\<open>src/core.ts\<close>)\<close>

subsection \<open>Values and the platform\<close>

text \<open>
  A JSON value. An object is the list of its properties in insertion order; a claim set
  (\<open>Record<string, unknown>\<close>) is such a list.
\<close>

datatype json =
    JNull
  | JBool bool
  | JNumber number
  | JString string
  | JArray "json list"
  | JObject "(string \<times> json) list"

type_synonym claims = "(string \<times> json) list"

text \<open>
  What \<open>core.ts\<close> imports or finds in the runtime, and this repository does not define:
  \<^item> \<open>xchacha20poly1305(key, nonce).encrypt(plaintext)\<close> and \<open>.decrypt(ciphertext)\<close> of
    \<open>@noble/ciphers\<close> (\<open>None\<close>: the call throws),
  \<^item> \<open>base64url.encode\<close> and \<open>base64url.decode\<close> of \<open>@scure/base\<close> (\<open>None\<close>: it throws),
  \<^item> \<open>JSON.stringify\<close> and \<open>JSON.parse\<close> (\<open>None\<close>: a \<open>SyntaxError\<close>),
  \<^item> \<open>new TextEncoder().encode\<close> and \<open>new TextDecoder().decode\<close>,
  \<^item> the arithmetic of doubles: \<open>Number.parseInt(s, 10)\<close> on a string of decimal digits
    (the nearest double, or one near it for a long string, or \<open>Infinity\<close>), and \<open>a + b\<close>
    and \<open>a * b\<close> on numbers (the exact result rounded to a double).
  They are parameters of the engine.
\<close>

record platform =
  xchacha20poly1305_encrypt :: "Uint8Array \<Rightarrow> Uint8Array \<Rightarrow> Uint8Array \<Rightarrow> Uint8Array option"
  xchacha20poly1305_decrypt :: "Uint8Array \<Rightarrow> Uint8Array \<Rightarrow> Uint8Array \<Rightarrow> Uint8Array option"
  base64url_encode :: "Uint8Array \<Rightarrow> string"
  base64url_decode :: "string \<Rightarrow> Uint8Array option"
  JSON_stringify :: "json \<Rightarrow> string"
  JSON_parse :: "string \<Rightarrow> json option"
  TextEncoder_encode :: "string \<Rightarrow> Uint8Array"
  TextDecoder_decode :: "Uint8Array \<Rightarrow> string"
  Number_parseInt :: "string \<Rightarrow> number"
  Number_add :: "number \<Rightarrow> number \<Rightarrow> number"
  Number_multiply :: "number \<Rightarrow> number \<Rightarrow> number"

text \<open>
  The secure random source is the stream of bytes it will hand out;
  \<open>crypto.getRandomValues\<close> on an array of \<open>n\<close> bytes takes the next \<open>n\<close>. The clock is
  an argument of each call: the value \<open>Date.now()\<close> returns in it, a whole number of
  milliseconds. \<open>Math.floor(Date.now() / 1000)\<close> is then \<open>clock div 1000\<close>: over the range
  of time values the quotient is at least a thousandth below the next whole number,
  more than the spacing of doubles there, so that rounding it never reaches it.
\<close>

type_synonym csprng = "nat \<Rightarrow> byte"

definition getRandomValues :: "nat \<Rightarrow> csprng \<Rightarrow> Uint8Array \<times> csprng" where
  "getRandomValues n g = (map g [0..<n], (\<lambda>i. g (i + n)))"

subsection \<open>Constants and helpers\<close>

definition TECTO_PREFIX :: string where
  "TECTO_PREFIX = ''tecto''"

definition TECTO_VERSION :: string where
  "TECTO_VERSION = ''v1''"

definition NONCE_LENGTH :: nat where
  "NONCE_LENGTH = 24"

definition SEGMENT_COUNT :: nat where
  "SEGMENT_COUNT = 5"

text \<open>The character classes of the duration pattern: \<open>\d\<close> and \<open>\s\<close> (on 8-bit code units).\<close>

definition is_digit :: "char \<Rightarrow> bool" where
  "is_digit c = (c \<in> set ''0123456789'')"

definition is_space :: "char \<Rightarrow> bool" where
  "is_space c = ((of_char c :: nat) \<in> {9, 10, 11, 12, 13, 32, 160})"

text \<open>The integer a string of decimal digits denotes.\<close>

definition digit_value :: "char \<Rightarrow> int" where
  "digit_value c = (case map_of (zip ''0123456789'' [0, 1, 2, 3, 4, 5, 6, 7, 8, 9]) c of
                      Some d \<Rightarrow> d | None \<Rightarrow> 0)"

definition decimal_value :: "string \<Rightarrow> int" where
  "decimal_value digits = foldl (\<lambda>n c. 10 * n + digit_value c) 0 digits"

text \<open>\<open>toLowerCase\<close>, on the letters A to Z.\<close>

definition toLowerCase :: "string \<Rightarrow> string" where
  "toLowerCase s =
     map (\<lambda>c. case map_of (zip ''ABCDEFGHIJKLMNOPQRSTUVWXYZ'' ''abcdefghijklmnopqrstuvwxyz'') c of
                 Some l \<Rightarrow> l | None \<Rightarrow> c) s"

text \<open>
  The match of \<open>/^(\d+)\s*(s|m|h|d)$/i\<close>: the two groups, or \<open>None\<close>. The three classes
  are disjoint, so the greedy match is the only one: all leading digits (at least one),
  all white space after them, then one unit letter that ends the string.
\<close>

definition duration_match :: "string \<Rightarrow> (string \<times> string) option" where
  "duration_match duration =
     (let digits = takeWhile is_digit duration;
          rest = dropWhile is_space (dropWhile is_digit duration)
      in if digits \<noteq> [] \<and> length rest = 1 \<and> set rest \<subseteq> set ''smhdSMHD''
         then Some (digits, rest) else None)"

text \<open>
  \<open>parseDuration\<close>: the table of multipliers holds whole numbers; the value is
  \<open>Number.parseInt\<close> of the digits, and the result their product, both as the runtime
  computes them.
\<close>

definition multipliers :: "(string \<times> int) list" where
  "multipliers = [(''s'', 1), (''m'', 60), (''h'', 3600), (''d'', 86400)]"

definition parseDuration :: "platform \<Rightarrow> string \<Rightarrow> error + number" where
  "parseDuration P duration =
     (case duration_match duration of
        None \<Rightarrow> Inl (TectoError (InvalidDurationFormat duration))
      | Some (digits, u) \<Rightarrow>
         (let val = Number_parseInt P digits;
              unit = toLowerCase u
          in case map_of multipliers unit of
               None \<Rightarrow> Inl (TectoError (UnknownDurationUnit unit))
             | Some multiplier \<Rightarrow> Inr (Number_multiply P val (Num (of_int multiplier)))))"

text \<open>
  Following the spec's duration grammar: the number of seconds a duration string
  denotes, as an integer (the digits times the unit's multiplier).
\<close>

definition duration_seconds :: "string \<Rightarrow> int option" where
  "duration_seconds duration =
     (case duration_match duration of
        None \<Rightarrow> None
      | Some (digits, u) \<Rightarrow>
          map_option (\<lambda>multiplier. decimal_value digits * multiplier)
            (map_of multipliers (toLowerCase u)))"

text \<open>\<open>b.toString(16).padStart(2, "0")\<close> for a byte \<open>b\<close>, and \<open>generateJti\<close>.\<close>

definition hex_digit :: "nat \<Rightarrow> char" where
  "hex_digit d = ''0123456789abcdef'' ! d"

function toString_16 :: "nat \<Rightarrow> string" where
  "toString_16 n = (if n < 16 then [hex_digit n] else toString_16 (n div 16) @ [hex_digit (n mod 16)])"
  by pat_completeness auto
termination
  by (relation "measure (\<lambda>n. n)") auto

declare toString_16.simps [simp del]

definition padStart :: "nat \<Rightarrow> char \<Rightarrow> string \<Rightarrow> string" where
  "padStart n c s = replicate (n - length s) c @ s"

definition hex_byte :: "byte \<Rightarrow> string" where
  "hex_byte b = padStart 2 CHR ''0'' (toString_16 (unat b))"

definition generateJti :: "csprng \<Rightarrow> string \<times> csprng" where
  "generateJti g =
     (case getRandomValues 16 g of (bytes, g1) \<Rightarrow> (concat (map hex_byte bytes), g1))"

text \<open>\<open>s.split(".")\<close>: the empty string splits into one empty segment.\<close>

fun split_dot :: "string \<Rightarrow> string list" where
  "split_dot [] = [[]]"
| "split_dot (c # cs) =
     (if c = CHR ''.'' then [] # split_dot cs
      else (case split_dot cs of [] \<Rightarrow> [[c]] | w # ws \<Rightarrow> (c # w) # ws))"

subsection \<open>\<open>encrypt\<close>\<close>

record SignOptions =
  expiresIn :: "string option"
  issuer :: "string option"
  audience :: "string option"
  jti :: "string option"
  notBefore :: "string option"

text \<open>\<open>options?.field\<close>: \<open>undefined\<close> when there are no options or the field is not set.\<close>

definition opt :: "(SignOptions \<Rightarrow> string option) \<Rightarrow> SignOptions option \<Rightarrow> string option" where
  "opt field options = (case options of None \<Rightarrow> None | Some v \<Rightarrow> field v)"

text \<open>\<open>options?.jti ?? generateJti()\<close>: the generator runs only when no jti is given.\<close>

definition resolve_jti :: "SignOptions option \<Rightarrow> csprng \<Rightarrow> string \<times> csprng" where
  "resolve_jti options g = (case opt jti options of Some j \<Rightarrow> (j, g) | None \<Rightarrow> generateJti g)"

text \<open>
  \<open>if (options?.f) claims.k = now + parseDuration(options.f)\<close> and
  \<open>if (options?.f) claims.k = options.f\<close>: a string is truthy when it is not empty.
\<close>

definition set_time_claim ::
  "platform \<Rightarrow> string \<Rightarrow> int \<Rightarrow> string option \<Rightarrow> claims \<Rightarrow> error + claims" where
  "set_time_claim P k now f cl =
     (case f of
        None \<Rightarrow> Inr cl
      | Some d \<Rightarrow>
         (if d = [] then Inr cl
          else (case parseDuration P d of
                  Inl e \<Rightarrow> Inl e
                | Inr seconds \<Rightarrow>
                    Inr (AList.update k (JNumber (Number_add P (Num (of_int now)) seconds)) cl))))"

definition set_string_claim :: "string \<Rightarrow> string option \<Rightarrow> claims \<Rightarrow> claims" where
  "set_string_claim k f cl =
     (case f of
        None \<Rightarrow> cl
      | Some v \<Rightarrow> (if v = [] then cl else AList.update k (JString v) cl))"

text \<open>
  Lines 141 to 161 of \<open>encrypt\<close>: the claim object, from the payload, the options, the
  time and the resolved jti. The object literal copies the payload and then sets \<open>iat\<close>
  and \<open>jti\<close>.
\<close>

definition encrypt_claims ::
  "platform \<Rightarrow> claims \<Rightarrow> SignOptions option \<Rightarrow> int \<Rightarrow> string \<Rightarrow> error + claims" where
  "encrypt_claims P payload options now jti' =
     (let cl = AList.update ''jti'' (JString jti')
                 (AList.update ''iat'' (JNumber (Num (of_int now))) payload)
      in case set_time_claim P ''exp'' now (opt expiresIn options) cl of
           Inl e \<Rightarrow> Inl e
         | Inr cl1 \<Rightarrow>
            (case set_time_claim P ''nbf'' now (opt notBefore options) cl1 of
               Inl e \<Rightarrow> Inl e
             | Inr cl2 \<Rightarrow>
                Inr (set_string_claim ''aud'' (opt audience options)
                       (set_string_claim ''iss'' (opt issuer options) cl2))))"

text \<open>The nonce a call of \<open>encrypt\<close> draws: the 24 bytes after those of the jti, if any.\<close>

definition encrypt_nonce :: "SignOptions option \<Rightarrow> csprng \<Rightarrow> Uint8Array" where
  "encrypt_nonce options g = fst (getRandomValues NONCE_LENGTH (snd (resolve_jti options g)))"

definition frame :: "string \<Rightarrow> string \<Rightarrow> string \<Rightarrow> string" where
  "frame kid nonceB64 ciphertextB64 =
     TECTO_PREFIX @ ''.'' @ TECTO_VERSION @ ''.'' @ kid @ ''.'' @ nonceB64 @ ''.'' @ ciphertextB64"

text \<open>
  \<open>encrypt\<close>, on the store \<open>ks\<close>, at clock value \<open>clock\<close>, with random source \<open>g\<close>: the
  token or the exception, and the random source after the call.
\<close>

definition encrypt ::
  "platform \<Rightarrow> MemoryKeyStore \<Rightarrow> int \<Rightarrow> csprng \<Rightarrow> claims \<Rightarrow> SignOptions option \<Rightarrow>
   (error + string) \<times> csprng" where
  "encrypt P ks clock g payload options =
     (case getCurrentKeyId ks of
        Inl e \<Rightarrow> (Inl e, g)
      | Inr kid \<Rightarrow>
         (case getKey ks kid of
            Inl e \<Rightarrow> (Inl e, g)
          | Inr key \<Rightarrow>
             (let now = clock div 1000 in
              case resolve_jti options g of
                (jti', g1) \<Rightarrow>
                 (case encrypt_claims P payload options now jti' of
                    Inl e \<Rightarrow> (Inl e, g1)
                  | Inr cl \<Rightarrow>
                     (let plaintext = TextEncoder_encode P (JSON_stringify P (JObject cl)) in
                      case getRandomValues NONCE_LENGTH g1 of
                        (nonce, g2) \<Rightarrow>
                         (case xchacha20poly1305_encrypt P (buffers ks key) nonce plaintext of
                            None \<Rightarrow> (Inl LibraryError, g2)
                          | Some ciphertext \<Rightarrow>
                             (Inr (frame kid (base64url_encode P nonce)
                                     (base64url_encode P ciphertext)), g2)))))))"

subsection \<open>\<open>decrypt\<close>\<close>

text \<open>
  \<open>payload.k\<close>: a property read throws a \<open>TypeError\<close> on \<open>null\<close>, finds the property of
  an object if it has one, and is \<open>undefined\<close> (\<open>None\<close>) otherwise.
\<close>

definition get_prop :: "json \<Rightarrow> string \<Rightarrow> error + json option" where
  "get_prop v k =
     (case v of
        JNull \<Rightarrow> Inl JsTypeError
      | JObject props \<Rightarrow> Inr (map_of props k)
      | _ \<Rightarrow> Inr None)"

text \<open>
  Lines 254 to 264 of \<open>decrypt\<close>: the two time checks on the parsed payload, at \<open>now\<close>.
  \<open>typeof x === "number"\<close> holds of a \<open>JNumber\<close> only.
\<close>

definition check_nbf :: "platform \<Rightarrow> int \<Rightarrow> json \<Rightarrow> error + json" where
  "check_nbf P now payload =
     (case get_prop payload ''nbf'' of
        Inl e \<Rightarrow> Inl e
      | Inr (Some (JNumber n)) \<Rightarrow>
          if number_gt n (Num (of_int now))
          then Inl (TokenNotActiveError (new_Date (Number_multiply P n (Num 1000))))
          else Inr payload
      | Inr _ \<Rightarrow> Inr payload)"

definition check_time_claims :: "platform \<Rightarrow> int \<Rightarrow> json \<Rightarrow> error + json" where
  "check_time_claims P now payload =
     (case get_prop payload ''exp'' of
        Inl e \<Rightarrow> Inl e
      | Inr (Some (JNumber n)) \<Rightarrow>
          if number_le n (Num (of_int now))
          then Inl (TokenExpiredError (new_Date (Number_multiply P n (Num 1000))))
          else check_nbf P now payload
      | Inr _ \<Rightarrow> check_nbf P now payload)"

definition decrypt :: "platform \<Rightarrow> MemoryKeyStore \<Rightarrow> int \<Rightarrow> string \<Rightarrow> error + json" where
  "decrypt P ks clock token =
     (let segments = split_dot token in
      if length segments \<noteq> SEGMENT_COUNT then Inl InvalidSignatureError
      else
       (case segments of
          [prefix, version, kid, nonceB64, ciphertextB64] \<Rightarrow>
            if prefix \<noteq> TECTO_PREFIX \<or> version \<noteq> TECTO_VERSION then Inl InvalidSignatureError
            else
             (case getKey ks kid of
                Inl e \<Rightarrow> Inl InvalidSignatureError
              | Inr key \<Rightarrow>
                 (case base64url_decode P nonceB64 of
                    None \<Rightarrow> Inl InvalidSignatureError
                  | Some nonce \<Rightarrow>
                     (case base64url_decode P ciphertextB64 of
                        None \<Rightarrow> Inl InvalidSignatureError
                      | Some ciphertext \<Rightarrow>
                         if length nonce \<noteq> NONCE_LENGTH then Inl InvalidSignatureError
                         else
                          (case xchacha20poly1305_decrypt P (buffers ks key) nonce ciphertext of
                             None \<Rightarrow> Inl InvalidSignatureError
                           | Some plaintext \<Rightarrow>
                              (case JSON_parse P (TextDecoder_decode P plaintext) of
                                 None \<Rightarrow> Inl InvalidSignatureError
                               | Some payload \<Rightarrow> check_time_claims P (clock div 1000) payload)))))
        | _ \<Rightarrow> Inl InvalidSignatureError))"

subsection \<open>Compositions of calls\<close>

text \<open>
  \<open>decrypt(encrypt(payload, options))\<close>, with \<open>encrypt\<close> at clock value \<open>clock\<close> and \<open>decrypt\<close>
  at \<open>clock'\<close>.
\<close>

definition roundtrip ::
  "platform \<Rightarrow> MemoryKeyStore \<Rightarrow> int \<Rightarrow> int \<Rightarrow> csprng \<Rightarrow> claims \<Rightarrow> SignOptions option \<Rightarrow> error + json" where
  "roundtrip P ks clock clock' g payload options =
     (case fst (encrypt P ks clock g payload options) of
        Inl e \<Rightarrow> Inl e
      | Inr token \<Rightarrow> decrypt P ks clock' token)"

text \<open>
  Two calls of \<open>encrypt\<close> with the same arguments, one after the other: the second reads
  the random source where the first left it.
\<close>

definition encrypt_twice ::
  "platform \<Rightarrow> MemoryKeyStore \<Rightarrow> int \<Rightarrow> int \<Rightarrow> csprng \<Rightarrow> claims \<Rightarrow> SignOptions option \<Rightarrow>
   (error + string) \<times> (error + string)" where
  "encrypt_twice P ks clock1 clock2 g payload options =
     (case encrypt P ks clock1 g payload options of
        (r1, g1) \<Rightarrow> (r1, fst (encrypt P ks clock2 g1 payload options)))"

text \<open>The bytes a call of \<open>encrypt\<close> draws for the jti before it draws the nonce.\<close>

definition jti_draw :: "SignOptions option \<Rightarrow> nat" where
  "jti_draw options = (if opt jti options = None then 16 else 0)"

subsection \<open>What the engine needs of the platform\<close>

text \<open>
  The cipher opens what it sealed, under a 32-byte key and a 24-byte nonce; the text
  encoding decodes what it encoded and never writes a dot; and a JSON value survives
  \<open>JSON.stringify\<close>, the UTF-8 encoding and their inverses (a property of the value: not
  every JavaScript value does). The arithmetic of doubles is exact on whole numbers up
  to \<open>2 ^ 53\<close> in magnitude: every one of them is a double.
\<close>

definition aead_correct :: "platform \<Rightarrow> bool" where
  "aead_correct P =
     (\<forall>key nonce plaintext. length key = 32 \<and> length nonce = 24 \<longrightarrow>
        (\<exists>ciphertext. xchacha20poly1305_encrypt P key nonce plaintext = Some ciphertext \<and>
                      xchacha20poly1305_decrypt P key nonce ciphertext = Some plaintext))"

definition base64url_correct :: "platform \<Rightarrow> bool" where
  "base64url_correct P =
     (\<forall>bytes. base64url_decode P (base64url_encode P bytes) = Some bytes \<and>
              CHR ''.'' \<notin> set (base64url_encode P bytes))"

definition json_roundtrip :: "platform \<Rightarrow> json \<Rightarrow> bool" where
  "json_roundtrip P v =
     (JSON_parse P (TextDecoder_decode P (TextEncoder_encode P (JSON_stringify P v))) = Some v)"

definition number_exact :: "platform \<Rightarrow> bool" where
  "number_exact P =
     ((\<forall>digits. digits \<noteq> [] \<and> list_all is_digit digits \<and> decimal_value digits \<le> 2 ^ 53 \<longrightarrow>
         Number_parseInt P digits = Num (of_int (decimal_value digits))) \<and>
      (\<forall>a b :: int. \<bar>a\<bar> \<le> 2 ^ 53 \<and> \<bar>b\<bar> \<le> 2 ^ 53 \<and> \<bar>a + b\<bar> \<le> 2 ^ 53 \<longrightarrow>
         Number_add P (Num (of_int a)) (Num (of_int b)) = Num (of_int (a + b))) \<and>
      (\<forall>a b :: int. \<bar>a\<bar> \<le> 2 ^ 53 \<and> \<bar>b\<bar> \<le> 2 ^ 53 \<and> \<bar>a * b\<bar> \<le> 2 ^ 53 \<longrightarrow>
         Number_multiply P (Num (of_int a)) (Num (of_int b)) = Num (of_int (a * b))))"

section \<open>A reference platform\<close>

text \<open>
  A small platform that meets the requirements, to run the engine on. The cipher
  masks the plaintext with the first key byte and appends a 16-byte tag of key and
  nonce; the text encoding writes two hexadecimal digits per byte; the serialisation
  covers \<open>null\<close> and objects whose values are non-negative whole numbers and strings,
  one \<open>key=#digits;\<close> or \<open>key=$text;\<close> per property; the arithmetic is that of the reals
  on finite numbers, and gives \<open>NaN\<close> on the others.
\<close>

definition ref_tag :: "Uint8Array \<Rightarrow> Uint8Array \<Rightarrow> Uint8Array" where
  "ref_tag key nonce = map (\<lambda>(k, n). k XOR n) (zip (take 16 key) (take 16 nonce))"

definition ref_seal :: "Uint8Array \<Rightarrow> Uint8Array \<Rightarrow> Uint8Array \<Rightarrow> Uint8Array option" where
  "ref_seal key nonce plaintext =
     (if length key = 32 \<and> length nonce = 24
      then Some (map (\<lambda>b. b XOR key ! 0) plaintext @ ref_tag key nonce)
      else None)"

definition ref_open :: "Uint8Array \<Rightarrow> Uint8Array \<Rightarrow> Uint8Array \<Rightarrow> Uint8Array option" where
  "ref_open key nonce ciphertext =
     (if length key = 32 \<and> length nonce = 24 \<and> 16 \<le> length ciphertext \<and>
         drop (length ciphertext - 16) ciphertext = ref_tag key nonce
      then Some (map (\<lambda>b. b XOR key ! 0) (take (length ciphertext - 16) ciphertext))
      else None)"

definition ref_encode :: "Uint8Array \<Rightarrow> string" where
  "ref_encode bytes = concat (map hex_byte bytes)"

definition hex_value :: "char \<Rightarrow> nat option" where
  "hex_value c = map_of (zip ''0123456789abcdef'' [0..<16]) c"

fun ref_decode :: "string \<Rightarrow> Uint8Array option" where
  "ref_decode [] = Some []"
| "ref_decode [c] = None"
| "ref_decode (c # d # cs) =
     (case (hex_value c, hex_value d, ref_decode cs) of
        (Some h, Some l, Some bytes) \<Rightarrow> Some (of_nat (16 * h + l) # bytes)
      | _ \<Rightarrow> None)"

definition ref_utf8_encode :: "string \<Rightarrow> Uint8Array" where
  "ref_utf8_encode s = map (\<lambda>c. of_nat (of_char c)) s"

definition ref_utf8_decode :: "Uint8Array \<Rightarrow> string" where
  "ref_utf8_decode bytes = map (\<lambda>b. char_of (unat b)) bytes"

function decimal :: "nat \<Rightarrow> string" where
  "decimal n = (if n < 10 then [hex_digit n] else decimal (n div 10) @ [hex_digit (n mod 10)])"
  by pat_completeness auto
termination
  by (relation "measure (\<lambda>n. n)") auto

declare decimal.simps [simp del]

definition ref_property :: "string \<times> json \<Rightarrow> string" where
  "ref_property p =
     fst p @
     (case snd p of
        JNumber (Num x) \<Rightarrow>
          if 0 \<le> x \<and> of_int \<lfloor>x\<rfloor> = x then ''=#'' @ decimal (nat \<lfloor>x\<rfloor>) else ''=?''
      | JString s \<Rightarrow> ''=$'' @ s
      | _ \<Rightarrow> ''=?'') @ '';''"

definition ref_stringify :: "json \<Rightarrow> string" where
  "ref_stringify v =
     (case v of
        JNull \<Rightarrow> ''null''
      | JObject props \<Rightarrow> concat (map ref_property props)
      | _ \<Rightarrow> ''?'')"

fun split_semi :: "string \<Rightarrow> string list" where
  "split_semi [] = []"
| "split_semi (c # cs) =
     (if c = CHR '';'' then [] # split_semi cs
      else (case split_semi cs of [] \<Rightarrow> [[c]] | w # ws \<Rightarrow> (c # w) # ws))"

definition ref_parse_property :: "string \<Rightarrow> (string \<times> json) option" where
  "ref_parse_property s =
     (let k = takeWhile (\<lambda>c. c \<noteq> CHR ''='') s in
      case dropWhile (\<lambda>c. c \<noteq> CHR ''='') s of
        e # t # v \<Rightarrow>
          if t = CHR ''#'' \<and> v \<noteq> [] \<and> list_all is_digit v
          then Some (k, JNumber (Num (of_int (decimal_value v))))
          else if t = CHR ''$'' then Some (k, JString v)
          else None
      | _ \<Rightarrow> None)"

definition ref_parse :: "string \<Rightarrow> json option" where
  "ref_parse s =
     (if s = ''null'' then Some JNull
      else if s \<noteq> [] \<and> last s \<noteq> CHR '';'' then None
      else (let props = map ref_parse_property (split_semi s) in
            if list_all (\<lambda>p. p \<noteq> None) props then Some (JObject (map the props)) else None))"

definition ref_parseInt :: "string \<Rightarrow> number" where
  "ref_parseInt digits = Num (of_int (decimal_value digits))"

definition ref_add :: "number \<Rightarrow> number \<Rightarrow> number" where
  "ref_add a b = (case (a, b) of (Num x, Num y) \<Rightarrow> Num (x + y) | _ \<Rightarrow> NaN)"

definition ref_multiply :: "number \<Rightarrow> number \<Rightarrow> number" where
  "ref_multiply a b = (case (a, b) of (Num x, Num y) \<Rightarrow> Num (x * y) | _ \<Rightarrow> NaN)"

definition ref_platform :: platform where
  "ref_platform =
     \<lparr>xchacha20poly1305_encrypt = ref_seal, xchacha20poly1305_decrypt = ref_open,
      base64url_encode = ref_encode, base64url_decode = ref_decode,
      JSON_stringify = ref_stringify, JSON_parse = ref_parse,
      TextEncoder_encode = ref_utf8_encode, TextDecoder_decode = ref_utf8_decode,
      Number_parseInt = ref_parseInt, Number_add = ref_add, Number_multiply = ref_multiply\<rparr>"

section \<open>Example values\<close>

text \<open>Two secrets with eight distinct byte values each.\<close>

definition good_key :: Uint8Array where
  "good_key = [1, 2, 3, 4, 5, 6, 7, 8, 1, 2, 3, 4, 5, 6, 7, 8,
               1, 2, 3, 4, 5, 6, 7, 8, 1, 2, 3, 4, 5, 6, 7, 8]"

definition other_key :: Uint8Array where
  "other_key = [11, 12, 13, 14, 15, 16, 17, 18, 11, 12, 13, 14, 15, 16, 17, 18,
                11, 12, 13, 14, 15, 16, 17, 18, 11, 12, 13, 14, 15, 16, 17, 18]"

text \<open>
  Stores: one key \<open>k1\<close>; the same after rotating to \<open>k2\<close>; and one key whose id holds a
  dot.
\<close>

definition store1 :: MemoryKeyStore where
  "store1 = run [AddKey ''k1'' good_key]"

definition store2 :: MemoryKeyStore where
  "store2 = run [AddKey ''k1'' good_key, Rotate ''k2'' other_key]"

definition store_dot :: MemoryKeyStore where
  "store_dot = run [AddKey ''a.b'' good_key]"

text \<open>Two random sources: one that only returns zeros, and one that counts.\<close>

definition rng0 :: csprng where
  "rng0 = (\<lambda>i. 0)"

definition rng1 :: csprng where
  "rng1 = (\<lambda>i. of_nat i)"

text \<open>
  Payloads, options and the claim sets \<open>encrypt\<close> assembles from them at second 1000:
  \<open>{role: "admin"}\<close> with \<open>expiresIn: "1h"\<close>; the same with \<open>expiresIn: "2h"\<close> and
  \<open>notBefore: "1h"\<close>; and a payload with an \<open>iat\<close> of its own under an empty \<open>issuer\<close>.
\<close>

definition payload1 :: claims where
  "payload1 = [(''role'', JString ''admin'')]"

definition options1 :: "SignOptions option" where
  "options1 = Some \<lparr>expiresIn = Some ''1h'', issuer = None, audience = None,
                   jti = Some ''id1'', notBefore = None\<rparr>"

definition claims1 :: claims where
  "claims1 = [(''role'', JString ''admin''), (''iat'', JNumber (Num 1000)), (''jti'', JString ''id1''),
             (''exp'', JNumber (Num 4600))]"

definition options2 :: "SignOptions option" where
  "options2 = Some \<lparr>expiresIn = Some ''2h'', issuer = None, audience = None,
                   jti = Some ''id1'', notBefore = Some ''1h''\<rparr>"

definition claims2 :: claims where
  "claims2 = [(''role'', JString ''admin''), (''iat'', JNumber (Num 1000)), (''jti'', JString ''id1''),
             (''exp'', JNumber (Num 8200)), (''nbf'', JNumber (Num 4600))]"

definition payload3 :: claims where
  "payload3 = [(''iat'', JNumber (Num 5))]"

definition options3 :: "SignOptions option" where
  "options3 = Some \<lparr>expiresIn = None, issuer = Some '''', audience = None,
                   jti = Some ''id1'', notBefore = None\<rparr>"

definition claims3 :: claims where
  "claims3 = [(''iat'', JNumber (Num 1000)), (''jti'', JString ''id1'')]"

text \<open>
  The tokens \<open>encrypt\<close> returns for the first two, on the reference platform, under \<open>k1\<close>,
  at clock value 1000000 with the random source of zeros.
\<close>

definition token1 :: string where
  "token1 = (case fst (encrypt ref_platform store1 1000000 rng0 payload1 options1) of
               Inl e \<Rightarrow> [] | Inr token \<Rightarrow> token)"

definition token2 :: string where
  "token2 = (case fst (encrypt ref_platform store1 1000000 rng0 payload1 options2) of
               Inl e \<Rightarrow> [] | Inr token \<Rightarrow> token)"




section \<open>The entropy gate\<close>

text \<open>What each loop of \<open>assertEntropy\<close> computes.\<close>

lemma isAllZeros_loop_iff:
  "isAllZeros_loop key i = (\<forall>j. i \<le> j \<and> j < length key \<longrightarrow> key ! j = 0)"
proof (induction key i rule: isAllZeros_loop.induct)
  case (1 key i)
  show ?case
  proof (cases "i < length key")
    case False
    have "isAllZeros_loop key i = True"
      using False by (subst isAllZeros_loop.simps) simp
    moreover have "\<forall>j. i \<le> j \<and> j < length key \<longrightarrow> key ! j = 0"
      using False by auto
    ultimately show ?thesis by blast
  next
    case True
    show ?thesis
    proof (cases "key ! i = 0")
      case False
      have "isAllZeros_loop key i = False"
        using True False by (subst isAllZeros_loop.simps) (simp add: at_or_0_def)
      moreover have "\<not> (\<forall>j. i \<le> j \<and> j < length key \<longrightarrow> key ! j = 0)"
        using True False by blast
      ultimately show ?thesis by blast
    next
      case z: True
      have nz: "\<not> at_or_0 key i \<noteq> 0" using True z by (simp add: at_or_0_def)
      have "isAllZeros_loop key i = isAllZeros_loop key (i + 1)"
        using True nz by (subst isAllZeros_loop.simps) simp
      also have "\<dots> = (\<forall>j. i + 1 \<le> j \<and> j < length key \<longrightarrow> key ! j = 0)"
        by (rule 1[OF True nz])
      also have "\<dots> = (\<forall>j. i \<le> j \<and> j < length key \<longrightarrow> key ! j = 0)"
      proof -
        have "\<And>j. i \<le> j \<Longrightarrow> j = i \<or> i + 1 \<le> j" by arith
        then show ?thesis using z by (metis add_leD1)
      qed
      finally show ?thesis .
    qed
  qed
qed

lemma isRepeating_loop_iff:
  "isRepeating_loop key b i = (\<forall>j. i \<le> j \<and> j < length key \<longrightarrow> key ! j = b)"
proof (induction key b i rule: isRepeating_loop.induct)
  case (1 key b i)
  show ?case
  proof (cases "i < length key")
    case False
    have "isRepeating_loop key b i = True"
      using False by (subst isRepeating_loop.simps) simp
    moreover have "\<forall>j. i \<le> j \<and> j < length key \<longrightarrow> key ! j = b"
      using False by auto
    ultimately show ?thesis by blast
  next
    case True
    show ?thesis
    proof (cases "key ! i = b")
      case False
      have "isRepeating_loop key b i = False"
        using True False by (subst isRepeating_loop.simps) (simp add: at_or_0_def)
      moreover have "\<not> (\<forall>j. i \<le> j \<and> j < length key \<longrightarrow> key ! j = b)"
        using True False by blast
      ultimately show ?thesis by blast
    next
      case z: True
      have nz: "\<not> at_or_0 key i \<noteq> b" using True z by (simp add: at_or_0_def)
      have "isRepeating_loop key b i = isRepeating_loop key b (i + 1)"
        using True nz by (subst isRepeating_loop.simps) simp
      also have "\<dots> = (\<forall>j. i + 1 \<le> j \<and> j < length key \<longrightarrow> key ! j = b)"
        by (rule 1[OF True nz])
      also have "\<dots> = (\<forall>j. i \<le> j \<and> j < length key \<longrightarrow> key ! j = b)"
      proof -
        have "\<And>j. i \<le> j \<Longrightarrow> j = i \<or> i + 1 \<le> j" by arith
        then show ?thesis using z by (metis add_leD1)
      qed
      finally show ?thesis .
    qed
  qed
qed

lemma uniqueBytes_loop_spec:
  "distinct acc \<Longrightarrow>
   distinct (uniqueBytes_loop key acc i) \<and>
   set (uniqueBytes_loop key acc i) = set acc \<union> set (drop i key)"
proof (induction key acc i rule: uniqueBytes_loop.induct)
  case (1 key acc i)
  show ?case
  proof (cases "i < length key")
    case False
    have "uniqueBytes_loop key acc i = acc"
      using False by (subst uniqueBytes_loop.simps) simp
    then show ?thesis using 1(2) False by simp
  next
    case True
    define acc' where "acc' = (if at_or_0 key i \<in> set acc then acc else acc @ [at_or_0 key i])"
    have d: "distinct acc'" using 1(2) by (simp add: acc'_def)
    have step: "uniqueBytes_loop key acc i = uniqueBytes_loop key acc' (i + 1)"
      using True unfolding acc'_def by (subst uniqueBytes_loop.simps) simp
    have dr: "drop i key = key ! i # drop (i + 1) key"
      using True by (simp add: Cons_nth_drop_Suc)
    have s: "set acc' \<union> set (drop (i + 1) key) = set acc \<union> set (drop i key)"
      using True by (auto simp: dr at_or_0_def acc'_def)
    have ih: "distinct (uniqueBytes_loop key acc' (i + 1)) \<and>
      set (uniqueBytes_loop key acc' (i + 1)) = set acc' \<union> set (drop (i + 1) key)"
      using 1(1)[OF True] d unfolding acc'_def by blast
    show ?thesis unfolding step using ih s by blast
  qed
qed

lemma length_uniqueBytes: "length (uniqueBytes_loop key [] 0) = card (set key)"
proof -
  have "distinct (uniqueBytes_loop key [] 0) \<and> set (uniqueBytes_loop key [] 0) = set key"
    using uniqueBytes_loop_spec[of "[]" key 0] by simp
  then show ?thesis by (metis distinct_card)
qed

lemma isAllZeros_iff: "isAllZeros_loop key 0 = (\<forall>b\<in>set key. b = 0)"
proof -
  have "(\<forall>j. j < length key \<longrightarrow> key ! j = 0) = (\<forall>b\<in>set key. b = 0)"
    by (metis in_set_conv_nth)
  then show ?thesis unfolding isAllZeros_loop_iff by simp
qed

lemma isRepeating_iff:
  "key \<noteq> [] \<Longrightarrow> isRepeating_loop key (at_or_0 key 0) 1 = (\<forall>b\<in>set key. b = key ! 0)"
proof -
  assume ne: "key \<noteq> []"
  have "(\<forall>j. 1 \<le> j \<and> j < length key \<longrightarrow> key ! j = key ! 0) = (\<forall>j. j < length key \<longrightarrow> key ! j = key ! 0)"
    by (metis One_nat_def Suc_leI bot_nat_0.not_eq_extremum)
  also have "\<dots> = (\<forall>b\<in>set key. b = key ! 0)"
    by (metis in_set_conv_nth)
  finally show ?thesis
    unfolding isRepeating_loop_iff using ne by (simp add: at_or_0_def)
qed

section \<open>The key store\<close>

lemma set_bytes_fresh: "set_bytes (replicate (length src) 0) src = src"
  by (simp add: set_bytes_def)

lemma addKey_accept:
  "assertEntropy secret = Inr () \<Longrightarrow>
   addKey s id' secret =
     (Inr (), s\<lparr>buffers := (buffers s)(fresh s := secret), fresh := Suc (fresh s),
               keys := AList.update id' (fresh s) (keys s),
               currentKeyId := (case currentKeyId s of None \<Rightarrow> Some id' | Some c \<Rightarrow> Some c)\<rparr>)"
  by (cases "currentKeyId s") (simp_all add: addKey_def Let_def set_bytes_fresh)

lemma addKey_reject:
  "assertEntropy secret = Inl e \<Longrightarrow> addKey s id' secret = (Inl e, s)"
  by (simp add: addKey_def)

lemma rotate_accept:
  "assertEntropy secret = Inr () \<Longrightarrow>
   rotate s id' secret =
     (Inr (), s\<lparr>buffers := (buffers s)(fresh s := secret), fresh := Suc (fresh s),
               keys := AList.update id' (fresh s) (keys s),
               currentKeyId := Some id'\<rparr>)"
  by (simp add: rotate_def addKey_accept)

lemma rotate_reject:
  "assertEntropy secret = Inl e \<Longrightarrow> rotate s id' secret = (Inl e, s)"
  by (simp add: rotate_def addKey_reject)

lemma removeKey_absent:
  "map_of (keys s) id' = None \<Longrightarrow> removeKey s id' = (Inl (KeyError (KeyNotFound id')), s)"
  by (simp add: removeKey_def)

lemma removeKey_current:
  "map_of (keys s) id' = Some r \<Longrightarrow> currentKeyId s = Some id' \<Longrightarrow>
   removeKey s id' = (Inl (KeyError CannotRemoveCurrent), s)"
  by (simp add: removeKey_def)

lemma removeKey_accept:
  "map_of (keys s) id' = Some r \<Longrightarrow> currentKeyId s \<noteq> Some id' \<Longrightarrow>
   removeKey s id' =
     (Inr (), s\<lparr>buffers := (buffers s)(r := fill_0 (buffers s r)),
               keys := AList.delete id' (keys s)\<rparr>)"
  by (simp add: removeKey_def Let_def)

lemma snd_update_subset: "snd ` set (AList.update k v al) \<subseteq> insert v (snd ` set al)"
  by (induction al) auto

lemma distinct_snd_update:
  "distinct (map snd al) \<Longrightarrow> v \<notin> snd ` set al \<Longrightarrow> distinct (map snd (AList.update k v al))"
proof (induction al)
  case Nil
  then show ?case by simp
next
  case (Cons p al)
  show ?case
  proof (cases "fst p = k")
    case True
    then show ?thesis using Cons.prems by (cases p) auto
  next
    case False
    have "snd p \<notin> snd ` set (AList.update k v al)"
      using snd_update_subset[of k v al] Cons.prems by auto
    then show ?thesis using False Cons by (cases p) auto
  qed
qed

lemma set_update_subset: "set (AList.update k v al) \<subseteq> insert (k, v) (set al)"
  by (induction al) auto

lemma store_ok_new: "store_ok new_MemoryKeyStore"
  by (simp add: store_ok_def new_MemoryKeyStore_def)

lemma store_ok_insert:
  assumes ok: "store_ok s" and ent: "assertEntropy secret = Inr ()"
    and cur: "c = Some id' \<or> (c = currentKeyId s \<and> c \<noteq> None)"
  shows "store_ok (s\<lparr>buffers := (buffers s)(fresh s := secret), fresh := Suc (fresh s),
               keys := AList.update id' (fresh s) (keys s), currentKeyId := c\<rparr>)"
proof -
  let ?s = "s\<lparr>buffers := (buffers s)(fresh s := secret), fresh := Suc (fresh s),
               keys := AList.update id' (fresh s) (keys s), currentKeyId := c\<rparr>"
  have old: "\<forall>(k, r)\<in>set (keys s). r < fresh s \<and> assertEntropy (buffers s r) = Inr ()"
    using ok by (simp add: store_ok_def list_all_iff)
  then have nf: "fresh s \<notin> snd ` set (keys s)" by fastforce
  have d1: "distinct (map fst (keys ?s))"
    using ok by (simp add: store_ok_def distinct_update)
  have d2: "distinct (map snd (keys ?s))"
    using ok nf by (simp add: store_ok_def distinct_snd_update)
  have all: "list_all (\<lambda>(k, r). r < fresh ?s \<and> assertEntropy (buffers ?s r) = Inr ()) (keys ?s)"
    unfolding list_all_iff
  proof
    fix p assume "p \<in> set (keys ?s)"
    then have "p = (id', fresh s) \<or> p \<in> set (keys s)"
      using set_update_subset[of id' "fresh s" "keys s"] by auto
    then show "case p of (k, r) \<Rightarrow> r < fresh ?s \<and> assertEntropy (buffers ?s r) = Inr ()"
      using old ent by (cases p) fastforce
  qed
  have c: "case currentKeyId ?s of None \<Rightarrow> keys ?s = [] | Some c \<Rightarrow> map_of (keys ?s) c \<noteq> None"
    using cur ok by (auto simp: store_ok_def update_conv' split: option.splits)
  show ?thesis
    unfolding store_ok_def using d1 d2 all c by blast
qed

lemma store_ok_addKey: "store_ok s \<Longrightarrow> store_ok (snd (addKey s id' secret))"
proof (cases "assertEntropy secret")
  case (Inl e)
  assume "store_ok s"
  then show ?thesis by (simp add: addKey_reject[OF Inl])
next
  case (Inr u)
  assume ok: "store_ok s"
  have e: "assertEntropy secret = Inr ()" using Inr by simp
  have "store_ok (s\<lparr>buffers := (buffers s)(fresh s := secret), fresh := Suc (fresh s),
               keys := AList.update id' (fresh s) (keys s),
               currentKeyId := (case currentKeyId s of None \<Rightarrow> Some id' | Some c \<Rightarrow> Some c)\<rparr>)"
    by (rule store_ok_insert[OF ok e]) (auto split: option.splits)
  then show ?thesis by (simp add: addKey_accept[OF e])
qed

lemma store_ok_rotate: "store_ok s \<Longrightarrow> store_ok (snd (rotate s id' secret))"
proof (cases "assertEntropy secret")
  case (Inl e)
  assume "store_ok s"
  then show ?thesis by (simp add: rotate_reject[OF Inl])
next
  case (Inr u)
  assume ok: "store_ok s"
  have e: "assertEntropy secret = Inr ()" using Inr by simp
  have "store_ok (s\<lparr>buffers := (buffers s)(fresh s := secret), fresh := Suc (fresh s),
               keys := AList.update id' (fresh s) (keys s), currentKeyId := Some id'\<rparr>)"
    by (rule store_ok_insert[OF ok e]) simp
  then show ?thesis by (simp add: rotate_accept[OF e])
qed

lemma store_ok_removeKey: "store_ok s \<Longrightarrow> store_ok (snd (removeKey s id'))"
proof (cases "map_of (keys s) id'")
  case None
  assume "store_ok s"
  then show ?thesis by (simp add: removeKey_absent[OF None])
next
  case (Some r)
  assume ok: "store_ok s"
  show ?thesis
  proof (cases "currentKeyId s = Some id'")
    case True
    then show ?thesis using ok by (simp add: removeKey_current[OF Some])
  next
    case False
    let ?s = "s\<lparr>buffers := (buffers s)(r := fill_0 (buffers s r)), keys := AList.delete id' (keys s)\<rparr>"
    have mem: "(id', r) \<in> set (keys s)" using Some by (rule map_of_SomeD)
    have df: "distinct (map fst (keys s))" and ds: "distinct (map snd (keys s))"
      using ok by (simp_all add: store_ok_def)
    have old: "\<forall>(k, r)\<in>set (keys s). r < fresh s \<and> assertEntropy (buffers s r) = Inr ()"
      using ok by (simp add: store_ok_def list_all_iff)
    have d1: "distinct (map fst (keys ?s))" using df by (simp add: distinct_delete)
    have d2: "distinct (map snd (keys ?s))"
      using ds by (simp add: AList.delete_eq distinct_map_filter)
    have all: "list_all (\<lambda>(k, r). r < fresh ?s \<and> assertEntropy (buffers ?s r) = Inr ()) (keys ?s)"
      unfolding list_all_iff
    proof
      fix p assume p: "p \<in> set (keys ?s)"
      obtain k r' where pk: "p = (k, r')" by (cases p)
      have in_s: "(k, r') \<in> set (keys s)" and kne: "k \<noteq> id'"
        using p pk by (auto simp: AList.delete_eq)
      have "r' \<noteq> r"
      proof
        assume "r' = r"
        then have "(k, r) \<in> set (keys s)" using in_s by simp
        then have "k = id'" using mem ds
          by (metis distinct_map inj_on_def snd_conv prod.inject)
        then show False using kne by simp
      qed
      then show "case p of (k, r) \<Rightarrow> r < fresh ?s \<and> assertEntropy (buffers ?s r) = Inr ()"
        using old in_s pk by fastforce
    qed
    have c: "case currentKeyId ?s of None \<Rightarrow> keys ?s = [] | Some c \<Rightarrow> map_of (keys ?s) c \<noteq> None"
    proof (cases "currentKeyId s")
      case None
      then have "keys s = []" using ok by (simp add: store_ok_def)
      then show ?thesis using mem by simp
    next
      case (Some c)
      then have "c \<noteq> id'" using False by simp
      moreover have "map_of (keys s) c \<noteq> None"
        using ok Some unfolding store_ok_def by (auto split: option.splits)
      ultimately show ?thesis using Some by (simp add: delete_conv')
    qed
    have "store_ok ?s" unfolding store_ok_def using d1 d2 all c by blast
    then show ?thesis by (simp add: removeKey_accept[OF Some False])
  qed
qed

lemma store_ok_exec: "store_ok s \<Longrightarrow> store_ok (exec s c)"
  by (cases c) (simp_all add: store_ok_addKey store_ok_rotate store_ok_removeKey)

lemma run_snoc: "run (calls @ [c]) = exec (run calls) c"
  by (simp add: run_def)

lemma store_ok_run: "store_ok (run calls)"
proof (induction calls rule: rev_induct)
  case Nil
  show ?case by (simp add: run_def store_ok_new)
next
  case (snoc c calls)
  then show ?case by (simp add: run_snoc store_ok_exec)
qed

lemma assertEntropy_eval:
  "assertEntropy key =
     (if length key \<noteq> 32 then Inl (KeyError (WrongLength (length key)))
      else if list_all (\<lambda>b. b = 0) key then Inl (KeyError AllZeros)
      else if list_all (\<lambda>b. b = key ! 0) key then Inl (KeyError RepeatingByte)
      else if length (remdups key) < 8 then Inl (KeyError (InsufficientEntropy (length (remdups key))))
      else Inr ())"
proof (cases "length key = 32")
  case False
  then show ?thesis by (simp add: assertEntropy_def KEY_LENGTH_def)
next
  case True
  then have ne: "key \<noteq> []" by auto
  have z: "isAllZeros_loop key 0 = list_all (\<lambda>b. b = 0) key"
    by (simp add: isAllZeros_iff list_all_iff)
  have r: "isRepeating_loop key (at_or_0 key 0) 1 = list_all (\<lambda>b. b = key ! 0) key"
    by (simp only: isRepeating_iff[OF ne] list_all_iff)
  have u: "length (uniqueBytes_loop key [] 0) = length (remdups key)"
    by (simp only: length_uniqueBytes length_remdups_card_conv)
  show ?thesis
    unfolding assertEntropy_def KEY_LENGTH_def MIN_UNIQUE_BYTES_def Let_def z r u
    using True by simp
qed

lemma card_set_ge_8:
  assumes "8 \<le> card (set (key :: byte list))"
  shows "\<not> (\<forall>b\<in>set key. b = v)"
proof
  assume "\<forall>b\<in>set key. b = v"
  then have "set key \<subseteq> {v}" by auto
  then have "card (set key) \<le> card {v}" by (intro card_mono) simp_all
  then show False using assms by simp
qed

subsection \<open>C7: the entropy gate\<close>

text \<open>
  Claim C7. \<open>assertEntropy\<close> throws a \<open>KeyError\<close> exactly when the secret is not 32 bytes
  long, or all its bytes are zero, or all its bytes are one value, or it has fewer than
  8 distinct byte values; it accepts exactly the 32-byte secrets with at least 8 distinct
  byte values. \<open>addKey\<close> and \<open>rotate\<close> return what \<open>assertEntropy\<close> returns on their secret.
\<close>

theorem assertEntropy_gate:
  "((\<exists>m. assertEntropy key = Inl (KeyError m)) =
      (length key \<noteq> 32 \<or> (\<forall>b\<in>set key. b = 0) \<or> (\<exists>v. \<forall>b\<in>set key. b = v) \<or>
       card (set key) < 8)) \<and>
   ((assertEntropy key = Inr ()) = (length key = 32 \<and> 8 \<le> card (set key))) \<and>
   fst (addKey s id' key) = assertEntropy key \<and>
   fst (rotate s id' key) = assertEntropy key"
proof -
  have acc: "(assertEntropy key = Inr ()) = (length key = 32 \<and> 8 \<le> card (set key))"
  proof (cases "8 \<le> card (set key)")
    case True
    have "length (remdups key) = card (set key)" by (rule length_remdups_card_conv)
    then show ?thesis
      using card_set_ge_8[OF True] True
      by (auto simp: assertEntropy_eval list_all_iff)
  next
    case False
    have "length (remdups key) = card (set key)" by (rule length_remdups_card_conv)
    then show ?thesis
      using False by (auto simp: assertEntropy_eval list_all_iff)
  qed
  have cases: "assertEntropy key = Inr () \<or> (\<exists>m. assertEntropy key = Inl (KeyError m))"
    by (simp add: assertEntropy_eval)
  have small: "(\<forall>b\<in>set key. b = v) \<Longrightarrow> length key = 32 \<Longrightarrow> card (set key) < 8" for v
    using card_set_ge_8[of key v] by (meson not_le)
  have rej: "(\<exists>m. assertEntropy key = Inl (KeyError m)) =
      (length key \<noteq> 32 \<or> (\<forall>b\<in>set key. b = 0) \<or> (\<exists>v. \<forall>b\<in>set key. b = v) \<or>
       card (set key) < 8)"
    using cases acc small by (metis Inl_Inr_False not_le)
  have a: "fst (addKey s id' key) = assertEntropy key"
    by (cases "assertEntropy key") (simp_all add: addKey_reject addKey_accept)
  have r: "fst (rotate s id' key) = assertEntropy key"
    by (cases "assertEntropy key") (simp_all add: rotate_reject rotate_accept)
  show ?thesis using acc rej a r by blast
qed

lemma good_key_card: "length good_key = 32 \<and> 8 \<le> card (set good_key)"
  unfolding length_remdups_card_conv[symmetric] good_key_def by simp

lemma good_key_ok: "assertEntropy good_key = Inr ()"
  by (simp add: assertEntropy_eval good_key_def)

lemma other_key_ok: "assertEntropy other_key = Inr ()"
  by (simp add: assertEntropy_eval other_key_def)

text \<open>
  The gate at work: a secret with eight distinct values passes, the all-zero secret and
  the secret of 32 sevens are refused.
\<close>

theorem assertEntropy_gate_witness:
  "assertEntropy good_key = Inr () \<and>
   (\<exists>m. assertEntropy (replicate 32 0) = Inl (KeyError m)) \<and>
   (\<exists>m. fst (addKey new_MemoryKeyStore ''k1'' (replicate 32 7)) = Inl (KeyError m))"
proof -
  have 1: "assertEntropy good_key = Inr ()"
    using assertEntropy_gate[of good_key new_MemoryKeyStore "''k1''"] good_key_card
    by blast
  have 2: "\<exists>m. assertEntropy (replicate 32 0) = Inl (KeyError m)"
    using assertEntropy_gate[of "replicate 32 0" new_MemoryKeyStore "''k1''"] by simp
  have 3: "\<exists>m. fst (addKey new_MemoryKeyStore ''k1'' (replicate 32 7)) = Inl (KeyError m)"
    using assertEntropy_gate[of "replicate 32 7" new_MemoryKeyStore "''k1''"] by auto
  show ?thesis using 1 2 3 by blast
qed

lemma stored_secret_length:
  "store_ok s \<Longrightarrow> map_of (keys s) k = Some r \<Longrightarrow>
   assertEntropy (buffers s r) = Inr () \<and> length (buffers s r) = 32 \<and> r < fresh s"
proof -
  assume ok: "store_ok s" and m: "map_of (keys s) k = Some r"
  have "(k, r) \<in> set (keys s)" using m by (rule map_of_SomeD)
  moreover have "\<forall>(k, r)\<in>set (keys s). r < fresh s \<and> assertEntropy (buffers s r) = Inr ()"
    using ok by (simp add: store_ok_def list_all_iff)
  ultimately have e: "assertEntropy (buffers s r) = Inr ()" and f: "r < fresh s" by auto
  have "length (buffers s r) = 32"
    using e by (simp add: assertEntropy_eval split: if_splits)
  then show ?thesis using e f by simp
qed

lemma current_is_stored:
  "store_ok s \<Longrightarrow> currentKeyId s = Some c \<Longrightarrow> \<exists>r. map_of (keys s) c = Some r"
  by (auto simp: store_ok_def)

lemma store_has_current: "store_ok s \<Longrightarrow> keys s \<noteq> [] \<Longrightarrow> \<exists>kid. currentKeyId s = Some kid"
  by (cases "currentKeyId s") (simp_all add: store_ok_def)

subsection \<open>C10: failing mutations change nothing\<close>

text \<open>
  Claim C10. When \<open>addKey\<close>, \<open>rotate\<close> or \<open>removeKey\<close> throws, the store is left exactly as it
  was before the call: the map, the current id and every buffer.
\<close>

theorem failing_mutation_atomic:
  "(addKey s id' secret = (Inl e, s') \<longrightarrow> s' = s) \<and>
   (rotate s id' secret = (Inl e, s') \<longrightarrow> s' = s) \<and>
   (removeKey s id' = (Inl e, s') \<longrightarrow> s' = s)"
proof -
  have a: "addKey s id' secret = (Inl e, s') \<longrightarrow> s' = s"
    by (cases "assertEntropy secret") (auto simp: addKey_reject addKey_accept)
  have r: "rotate s id' secret = (Inl e, s') \<longrightarrow> s' = s"
    by (cases "assertEntropy secret") (auto simp: rotate_reject rotate_accept)
  have d: "removeKey s id' = (Inl e, s') \<longrightarrow> s' = s"
  proof (cases "map_of (keys s) id'")
    case None
    then show ?thesis by (simp add: removeKey_absent)
  next
    case (Some k)
    then show ?thesis
      by (cases "currentKeyId s = Some id'") (auto simp: removeKey_current removeKey_accept)
  qed
  show ?thesis using a r d by blast
qed

lemma store1_eq:
  "store1 = \<lparr>buffers = (\<lambda>r. [])(0 := good_key), fresh = 1, keys = [(''k1'', 0)],
             currentKeyId = Some ''k1''\<rparr>"
  by (simp add: store1_def run_def addKey_accept[OF good_key_ok] new_MemoryKeyStore_def)

text \<open>
  Four failing calls on a store with one key: each returns its error and the same store.
\<close>

theorem failing_mutation_atomic_witness:
  "addKey store1 ''k2'' (replicate 32 0) = (Inl (KeyError AllZeros), store1) \<and>
   rotate store1 ''k2'' (replicate 32 7) = (Inl (KeyError RepeatingByte), store1) \<and>
   removeKey store1 ''k9'' = (Inl (KeyError (KeyNotFound ''k9'')), store1) \<and>
   removeKey store1 ''k1'' = (Inl (KeyError CannotRemoveCurrent), store1)"
proof -
  have e0: "assertEntropy (replicate 32 0) = Inl (KeyError AllZeros)"
    by (simp add: assertEntropy_eval list_all_iff)
  have e7: "assertEntropy (replicate 32 7) = Inl (KeyError RepeatingByte)"
    by (simp add: assertEntropy_eval list_all_iff)
  have a: "fst (addKey store1 ''k2'' (replicate 32 0)) = Inl (KeyError AllZeros)"
    by (simp add: addKey_reject[OF e0])
  have r: "fst (rotate store1 ''k2'' (replicate 32 7)) = Inl (KeyError RepeatingByte)"
    by (simp add: rotate_reject[OF e7])
  have d1: "fst (removeKey store1 ''k9'') = Inl (KeyError (KeyNotFound ''k9''))"
    by (simp add: removeKey_def store1_eq)
  have d2: "fst (removeKey store1 ''k1'') = Inl (KeyError CannotRemoveCurrent)"
    by (simp add: removeKey_def store1_eq)
  show ?thesis
    using a r d1 d2
      failing_mutation_atomic[of store1 "''k2''" "replicate 32 0" "KeyError AllZeros"
        "snd (addKey store1 ''k2'' (replicate 32 0))"]
      failing_mutation_atomic[of store1 "''k2''" "replicate 32 7" "KeyError RepeatingByte"
        "snd (rotate store1 ''k2'' (replicate 32 7))"]
      failing_mutation_atomic[of store1 "''k9''" good_key "KeyError (KeyNotFound ''k9'')"
        "snd (removeKey store1 ''k9'')"]
      failing_mutation_atomic[of store1 "''k1''" good_key "KeyError CannotRemoveCurrent"
        "snd (removeKey store1 ''k1'')"]
    by (metis prod.collapse)
qed

lemma current_survives:
  assumes ok: "store_ok s" and cur: "currentKeyId s = Some c"
  shows "map_of (keys (exec s call)) c \<noteq> None"
proof -
  obtain r where r: "map_of (keys s) c = Some r"
    using current_is_stored[OF ok cur] by blast
  show ?thesis
  proof (cases call)
    case (AddKey k secret)
    then show ?thesis using r
      by (cases "assertEntropy secret") (simp_all add: addKey_reject addKey_accept update_conv')
  next
    case (Rotate k secret)
    then show ?thesis using r
      by (cases "assertEntropy secret") (simp_all add: rotate_reject rotate_accept update_conv')
  next
    case (RemoveKey k)
    show ?thesis
    proof (cases "map_of (keys s) k")
      case None
      then show ?thesis using r RemoveKey by (simp add: removeKey_absent)
    next
      case (Some rk)
      show ?thesis
      proof (cases "k = c")
        case True
        then show ?thesis using r RemoveKey cur by (simp add: removeKey_current)
      next
        case False
        then have "currentKeyId s \<noteq> Some k" using cur by simp
        then show ?thesis using r RemoveKey False
          by (simp add: removeKey_accept[OF Some] delete_conv')
      qed
    qed
  qed (use r in simp_all)
qed

lemma getKey_stored: "map_of (keys s) k = Some r \<Longrightarrow> getKey s k = Inr r"
  by (simp add: getKey_def)

subsection \<open>C8: the current key is always stored\<close>

text \<open>
  Claim C8. After any sequence of calls on a new store, the current id (if set) names a
  stored key; the key that is current before a call is still stored after the call,
  whatever the call is; and \<open>removeKey\<close> on the current id throws and changes nothing.
\<close>

theorem current_key_invariant:
  "(currentKeyId (run calls) = Some c \<longrightarrow> (\<exists>r. getKey (run calls) c = Inr r)) \<and>
   (currentKeyId (run calls) = Some c \<longrightarrow> (\<exists>r. getKey (exec (run calls) call) c = Inr r)) \<and>
   (currentKeyId (run calls) = Some c \<longrightarrow>
      removeKey (run calls) c = (Inl (KeyError CannotRemoveCurrent), run calls))"
proof (cases "currentKeyId (run calls) = Some c")
  case False
  then show ?thesis by simp
next
  case True
  have ok: "store_ok (run calls)" by (rule store_ok_run)
  obtain r where r: "map_of (keys (run calls)) c = Some r"
    using current_is_stored[OF ok True] by blast
  obtain r' where r': "map_of (keys (exec (run calls) call)) c = Some r'"
    using current_survives[OF ok True, of call] by auto
  show ?thesis
    using getKey_stored[OF r] getKey_stored[OF r'] removeKey_current[OF r True] by simp
qed

lemma store2_eq:
  "store2 = \<lparr>buffers = (\<lambda>r. [])(0 := good_key, 1 := other_key), fresh = 2,
             keys = [(''k1'', 0), (''k2'', 1)], currentKeyId = Some ''k2''\<rparr>"
  by (simp add: store2_def run_def addKey_accept[OF good_key_ok] rotate_accept[OF other_key_ok]
      new_MemoryKeyStore_def)

text \<open>
  On the store with keys \<open>k1\<close> and \<open>k2\<close>, where \<open>k2\<close> is current.
\<close>

theorem current_key_invariant_witness:
  "currentKeyId store2 = Some ''k2'' \<and>
   (\<exists>r. getKey store2 ''k2'' = Inr r) \<and>
   (\<exists>r. getKey (exec store2 (RemoveKey ''k2'')) ''k2'' = Inr r) \<and>
   removeKey store2 ''k2'' = (Inl (KeyError CannotRemoveCurrent), store2)"
proof -
  have c: "currentKeyId store2 = Some ''k2''" by (simp add: store2_eq)
  show ?thesis
    using c current_key_invariant[of "[AddKey ''k1'' good_key, Rotate ''k2'' other_key]" "''k2''"
        "RemoveKey ''k2''"]
    unfolding store2_def by simp
qed

subsection \<open>C6: the revocation guard\<close>

text \<open>
  Claim C6. \<open>removeKey\<close> throws "Key not found" on an id that is not stored and "Cannot
  remove the current active key" on the current id, leaving the store as it was. After
  a rotation to a different id, \<open>removeKey\<close> on the formerly current id returns, the
  buffer that held its secret (the object \<open>getKey\<close> handed out) holds 32 zero bytes, and
  \<open>getKey\<close> on that id throws "Key not found".
\<close>

theorem removeKey_guard:
  "(map_of (keys s) id' = None \<longrightarrow> removeKey s id' = (Inl (KeyError (KeyNotFound id')), s)) \<and>
   (store_ok s \<and> currentKeyId s = Some id' \<longrightarrow>
      removeKey s id' = (Inl (KeyError CannotRemoveCurrent), s)) \<and>
   (store_ok s \<and> currentKeyId s = Some id' \<and> newId \<noteq> id' \<and>
    rotate s newId newSecret = (Inr (), s1) \<longrightarrow>
      (\<exists>r. getKey s id' = Inr r \<and> getKey s1 id' = Inr r \<and>
           fst (removeKey s1 id') = Inr () \<and>
           buffers (snd (removeKey s1 id')) r = replicate 32 0 \<and>
           getKey (snd (removeKey s1 id')) id' = Inl (KeyError (KeyNotFound id'))))"
proof -
  have a: "map_of (keys s) id' = None \<longrightarrow> removeKey s id' = (Inl (KeyError (KeyNotFound id')), s)"
    by (simp add: removeKey_absent)
  have b: "store_ok s \<and> currentKeyId s = Some id' \<longrightarrow>
      removeKey s id' = (Inl (KeyError CannotRemoveCurrent), s)"
    using current_is_stored removeKey_current by blast
  have c: "\<exists>r. getKey s id' = Inr r \<and> getKey s1 id' = Inr r \<and>
           fst (removeKey s1 id') = Inr () \<and>
           buffers (snd (removeKey s1 id')) r = replicate 32 0 \<and>
           getKey (snd (removeKey s1 id')) id' = Inl (KeyError (KeyNotFound id'))"
    if ok: "store_ok s" and cur: "currentKeyId s = Some id'" and ne: "newId \<noteq> id'"
      and rot: "rotate s newId newSecret = (Inr (), s1)"
  proof -
    obtain r where r: "map_of (keys s) id' = Some r"
      using current_is_stored[OF ok cur] by blast
    have ent: "assertEntropy newSecret = Inr ()"
      using rot by (cases "assertEntropy newSecret") (simp_all add: rotate_reject)
    have s1: "s1 = s\<lparr>buffers := (buffers s)(fresh s := newSecret), fresh := Suc (fresh s),
               keys := AList.update newId (fresh s) (keys s), currentKeyId := Some newId\<rparr>"
      using rot by (simp add: rotate_accept[OF ent])
    have len: "length (buffers s r) = 32" and lt: "r < fresh s"
      using stored_secret_length[OF ok r] by simp_all
    have r1: "map_of (keys s1) id' = Some r"
      using r ne by (simp add: s1 update_conv')
    have cur1: "currentKeyId s1 \<noteq> Some id'" using ne by (simp add: s1)
    have b1: "buffers s1 r = buffers s r" using lt by (simp add: s1)
    have rm: "removeKey s1 id' =
        (Inr (), s1\<lparr>buffers := (buffers s1)(r := fill_0 (buffers s1 r)),
                   keys := AList.delete id' (keys s1)\<rparr>)"
      by (rule removeKey_accept[OF r1 cur1])
    have z: "fill_0 (buffers s1 r) = replicate 32 0"
      using len b1 by (simp add: fill_0_def map_replicate_const)
    have gone: "map_of (AList.delete id' (keys s1)) id' = None"
      by (simp add: delete_conv')
    show ?thesis
      using getKey_stored[OF r] getKey_stored[OF r1] z gone
      by (simp add: rm getKey_def)
  qed
  show ?thesis using a b c by blast
qed

text \<open>
  The scenario on concrete stores: \<open>k1\<close> is current, \<open>k2\<close> is rotated in, \<open>k1\<close> is removed.
\<close>

theorem removeKey_guard_witness:
  "removeKey store1 ''k9'' = (Inl (KeyError (KeyNotFound ''k9'')), store1) \<and>
   removeKey store1 ''k1'' = (Inl (KeyError CannotRemoveCurrent), store1) \<and>
   rotate store1 ''k2'' other_key = (Inr (), store2) \<and>
   getKey store1 ''k1'' = Inr 0 \<and>
   fst (removeKey store2 ''k1'') = Inr () \<and>
   buffers (snd (removeKey store2 ''k1'')) 0 = replicate 32 0 \<and>
   getKey (snd (removeKey store2 ''k1'')) ''k1'' = Inl (KeyError (KeyNotFound ''k1''))"
proof -
  have ok: "store_ok store1" unfolding store1_def by (rule store_ok_run)
  have m: "map_of (keys store1) ''k9'' = None" by (simp add: store1_eq)
  have c: "currentKeyId store1 = Some ''k1''" by (simp add: store1_eq)
  have rot: "rotate store1 ''k2'' other_key = (Inr (), store2)"
    by (simp add: rotate_accept[OF other_key_ok] store1_eq store2_eq)
  have g: "getKey store1 ''k1'' = Inr 0" by (simp add: getKey_def store1_eq)
  show ?thesis
    using removeKey_guard[of store1 "''k9''" "''k2''" other_key store2]
      removeKey_guard[of store1 "''k1''" "''k2''" other_key store2] ok m c rot g
    by auto
qed

section \<open>The token engine\<close>

subsection \<open>Splitting and framing\<close>

lemma split_dot_not_Nil: "split_dot s \<noteq> []"
  by (induction s) (auto split: list.splits)

lemma split_dot_no_dot: "CHR ''.'' \<notin> set s \<Longrightarrow> split_dot s = [s]"
  by (induction s) auto

lemma split_dot_append: "split_dot (a @ CHR ''.'' # b) = split_dot a @ split_dot b"
proof (induction a)
  case Nil
  show ?case by simp
next
  case (Cons c a)
  obtain w ws where w: "split_dot a = w # ws"
    using split_dot_not_Nil[of a] by (cases "split_dot a") auto
  show ?case using Cons w by simp
qed

lemma split_dot_frame:
  "split_dot (frame kid n c) = [TECTO_PREFIX, TECTO_VERSION] @ split_dot kid @ split_dot n @ split_dot c"
proof -
  have p: "split_dot TECTO_PREFIX = [TECTO_PREFIX]" "split_dot TECTO_VERSION = [TECTO_VERSION]"
    by (simp_all add: TECTO_PREFIX_def TECTO_VERSION_def)
  have "frame kid n c =
      TECTO_PREFIX @ CHR ''.'' # (TECTO_VERSION @ CHR ''.'' # (kid @ CHR ''.'' # (n @ CHR ''.'' # c)))"
    by (simp add: frame_def)
  then show ?thesis by (simp only: split_dot_append p) simp
qed

subsection \<open>The reference platform meets the requirements\<close>

lemma xor_twice: "(b XOR k) XOR k = (b :: byte)"
  by (simp add: xor.assoc)

lemma length_ref_tag: "length key = 32 \<Longrightarrow> length nonce = 24 \<Longrightarrow> length (ref_tag key nonce) = 16"
  by (simp add: ref_tag_def)

lemma ref_open_seal:
  assumes "length key = 32" "length nonce = 24"
  shows "ref_open key nonce (map (\<lambda>b. b XOR key ! 0) plaintext @ ref_tag key nonce) = Some plaintext"
proof -
  have l: "length (ref_tag key nonce) = 16" using assms by (rule length_ref_tag)
  have "map (\<lambda>b. b XOR key ! 0) (map (\<lambda>b. b XOR key ! 0) plaintext) = plaintext"
    by (simp add: comp_def xor_twice)
  then show ?thesis using assms l by (simp add: ref_open_def)
qed

lemma ref_aead_correct: "aead_correct ref_platform"
  unfolding aead_correct_def
  by (simp add: ref_platform_def ref_seal_def ref_open_seal)

lemma hex_digit_value: "d < 16 \<Longrightarrow> hex_value (hex_digit d) = Some d"
proof -
  assume d: "d < 16"
  have "map_of (zip ''0123456789abcdef'' [0..<16]) (''0123456789abcdef'' ! d) = Some ([0..<16] ! d)"
    by (rule map_of_zip_nth) (use d in simp_all)
  then show ?thesis using d by (simp add: hex_value_def hex_digit_def)
qed

lemma hex_digit_not_dot: "d < 16 \<Longrightarrow> hex_digit d \<noteq> CHR ''.''"
proof -
  assume d: "d < 16"
  have "hex_digit d \<in> set ''0123456789abcdef''"
    unfolding hex_digit_def by (rule nth_mem) (use d in simp)
  then show ?thesis by auto
qed

lemma hex_byte_eq: "hex_byte b = [hex_digit (unat b div 16), hex_digit (unat b mod 16)]"
proof -
  have lt: "unat b < 256" using unsigned_less[of b, where ?'a = nat] by simp
  show ?thesis
  proof (cases "unat b < 16")
    case True
    then have "toString_16 (unat b) = [hex_digit (unat b)]"
      by (subst toString_16.simps) simp
    then show ?thesis using True by (simp add: hex_byte_def padStart_def hex_digit_def)
  next
    case False
    have d: "unat b div 16 < 16" using lt by simp
    have "toString_16 (unat b) = toString_16 (unat b div 16) @ [hex_digit (unat b mod 16)]"
      using False by (subst toString_16.simps) simp
    also have "toString_16 (unat b div 16) = [hex_digit (unat b div 16)]"
      using d by (subst toString_16.simps) simp
    finally show ?thesis by (simp add: hex_byte_def padStart_def)
  qed
qed

lemma ref_decode_encode: "ref_decode (ref_encode bytes) = Some bytes"
proof (induction bytes)
  case Nil
  show ?case by (simp add: ref_encode_def)
next
  case (Cons b bytes)
  have lt: "unat b < 256" using unsigned_less[of b, where ?'a = nat] by simp
  have h: "hex_value (hex_digit (unat b div 16)) = Some (unat b div 16)"
    by (rule hex_digit_value) (use lt in simp)
  have l: "hex_value (hex_digit (unat b mod 16)) = Some (unat b mod 16)"
    by (rule hex_digit_value) simp
  have v: "(of_nat (16 * (unat b div 16) + unat b mod 16) :: byte) = b"
    by simp
  show ?case using Cons h l v by (simp add: ref_encode_def hex_byte_eq)
qed

lemma ref_encode_no_dot: "CHR ''.'' \<notin> set (ref_encode bytes)"
proof -
  have "CHR ''.'' \<notin> set (hex_byte b)" for b
  proof -
    have lt: "unat b < 256" using unsigned_less[of b, where ?'a = nat] by simp
    have "hex_digit (unat b div 16) \<noteq> CHR ''.''" by (rule hex_digit_not_dot) (use lt in simp)
    moreover have "hex_digit (unat b mod 16) \<noteq> CHR ''.''" by (rule hex_digit_not_dot) simp
    ultimately show ?thesis by (auto simp: hex_byte_eq)
  qed
  then show ?thesis by (auto simp: ref_encode_def)
qed

lemma ref_base64url_correct: "base64url_correct ref_platform"
  unfolding base64url_correct_def
  by (simp add: ref_platform_def ref_decode_encode ref_encode_no_dot)

lemma ref_utf8_roundtrip: "ref_utf8_decode (ref_utf8_encode s) = s"
proof -
  have "char_of (unat (of_nat (of_char c) :: byte)) = c" for c
  proof -
    have "(of_char c :: nat) < 256" by simp
    then have "unat (of_nat (of_char c) :: byte) = of_char c"
      by (simp add: unat_of_nat)
    then show ?thesis by simp
  qed
  then show ?thesis by (simp add: ref_utf8_decode_def ref_utf8_encode_def comp_def)
qed

lemma ref_add_Num: "Number_add ref_platform (Num x) (Num y) = Num (x + y)"
  by (simp add: ref_platform_def ref_add_def)

lemma ref_multiply_Num: "Number_multiply ref_platform (Num x) (Num y) = Num (x * y)"
  by (simp add: ref_platform_def ref_multiply_def)

lemma ref_number_exact: "number_exact ref_platform"
  by (simp add: number_exact_def ref_platform_def ref_parseInt_def ref_add_def ref_multiply_def)

subsection \<open>What \<open>encrypt\<close> returns and what \<open>decrypt\<close> makes of it\<close>

lemma length_getRandomValues: "length (fst (getRandomValues n g)) = n"
  by (simp add: getRandomValues_def)

lemma length_encrypt_nonce: "length (encrypt_nonce options g) = 24"
  by (simp add: encrypt_nonce_def NONCE_LENGTH_def length_getRandomValues)

lemma encrypt_result:
  assumes ok: "store_ok ks" and cur: "currentKeyId ks = Some kid"
    and aead: "aead_correct P"
    and cl: "encrypt_claims P payload options (clock div 1000) (fst (resolve_jti options g)) = Inr cl"
  shows "\<exists>key ciphertext.
           map_of (keys ks) kid = Some key \<and>
           xchacha20poly1305_decrypt P (buffers ks key) (encrypt_nonce options g) ciphertext =
             Some (TextEncoder_encode P (JSON_stringify P (JObject cl))) \<and>
           encrypt P ks clock g payload options =
             (Inr (frame kid (base64url_encode P (encrypt_nonce options g))
                     (base64url_encode P ciphertext)),
              snd (getRandomValues NONCE_LENGTH (snd (resolve_jti options g))))"
proof -
  obtain key where key: "map_of (keys ks) kid = Some key"
    using current_is_stored[OF ok cur] by blast
  have len: "length (buffers ks key) = 32"
    using stored_secret_length[OF ok key] by simp
  let ?pt = "TextEncoder_encode P (JSON_stringify P (JObject cl))"
  obtain ct where seal: "xchacha20poly1305_encrypt P (buffers ks key) (encrypt_nonce options g) ?pt = Some ct"
    and op: "xchacha20poly1305_decrypt P (buffers ks key) (encrypt_nonce options g) ct = Some ?pt"
    using aead len length_encrypt_nonce[of options g] unfolding aead_correct_def by blast
  obtain j g1 where r: "resolve_jti options g = (j, g1)" by (cases "resolve_jti options g")
  obtain nonce g2 where n: "getRandomValues NONCE_LENGTH g1 = (nonce, g2)"
    by (cases "getRandomValues NONCE_LENGTH g1")
  have nonce: "encrypt_nonce options g = nonce" by (simp add: encrypt_nonce_def r n)
  have "encrypt P ks clock g payload options =
          (Inr (frame kid (base64url_encode P nonce) (base64url_encode P ct)), g2)"
    using cur key cl seal r n nonce
    by (simp add: encrypt_def getCurrentKeyId_def getKey_def Let_def)
  then show ?thesis using key op nonce r n by auto
qed

lemma decrypt_frame:
  assumes nodot: "CHR ''.'' \<notin> set kid" and b64: "base64url_correct P"
    and key: "map_of (keys ks) kid = Some key"
    and len: "length nonce = 24"
    and op: "xchacha20poly1305_decrypt P (buffers ks key) nonce ciphertext = Some plaintext"
    and parse: "JSON_parse P (TextDecoder_decode P plaintext) = Some payload"
  shows "decrypt P ks clock (frame kid (base64url_encode P nonce) (base64url_encode P ciphertext)) =
           check_time_claims P (clock div 1000) payload"
proof -
  have dn: "base64url_decode P (base64url_encode P nonce) = Some nonce"
    and dc: "base64url_decode P (base64url_encode P ciphertext) = Some ciphertext"
    and nn: "CHR ''.'' \<notin> set (base64url_encode P nonce)"
    and nc: "CHR ''.'' \<notin> set (base64url_encode P ciphertext)"
    using b64 unfolding base64url_correct_def by simp_all
  have seg: "split_dot (frame kid (base64url_encode P nonce) (base64url_encode P ciphertext)) =
      [TECTO_PREFIX, TECTO_VERSION, kid, base64url_encode P nonce, base64url_encode P ciphertext]"
    by (simp add: split_dot_frame split_dot_no_dot[OF nodot] split_dot_no_dot[OF nn]
        split_dot_no_dot[OF nc])
  show ?thesis
    unfolding decrypt_def seg Let_def
    using key dn dc len op parse
    by (simp add: SEGMENT_COUNT_def NONCE_LENGTH_def getKey_def)
qed

lemma decrypt_encrypt:
  assumes ok: "store_ok ks" and cur: "currentKeyId ks = Some kid"
    and nodot: "CHR ''.'' \<notin> set kid"
    and aead: "aead_correct P" and b64: "base64url_correct P"
    and cl: "encrypt_claims P payload options (clock div 1000) (fst (resolve_jti options g)) = Inr cl"
    and json: "json_roundtrip P (JObject cl)"
  shows "\<exists>token. fst (encrypt P ks clock g payload options) = Inr token \<and>
           decrypt P ks clock' token = check_time_claims P (clock' div 1000) (JObject cl)"
proof -
  obtain key ct where key: "map_of (keys ks) kid = Some key"
    and op: "xchacha20poly1305_decrypt P (buffers ks key) (encrypt_nonce options g) ct =
             Some (TextEncoder_encode P (JSON_stringify P (JObject cl)))"
    and enc: "fst (encrypt P ks clock g payload options) =
             Inr (frame kid (base64url_encode P (encrypt_nonce options g)) (base64url_encode P ct))"
    using encrypt_result[OF ok cur aead cl] by force
  have parse: "JSON_parse P (TextDecoder_decode P (TextEncoder_encode P (JSON_stringify P (JObject cl)))) =
      Some (JObject cl)"
    using json by (simp add: json_roundtrip_def)
  show ?thesis
    using enc decrypt_frame[OF nodot b64 key length_encrypt_nonce op parse] by simp
qed

subsection \<open>The claims \<open>encrypt\<close> assembles\<close>

lemma set_time_claim_other:
  "set_time_claim P k now f cl = Inr cl' \<Longrightarrow> k' \<noteq> k \<Longrightarrow> map_of cl' k' = map_of cl k'"
  by (auto simp: set_time_claim_def update_conv' split: option.splits if_splits sum.splits)

lemma set_time_claim_unset:
  "f = None \<or> f = Some [] \<Longrightarrow> set_time_claim P k now f cl = Inr cl"
  by (auto simp: set_time_claim_def)

lemma set_time_claim_set:
  "set_time_claim P k now (Some d) cl = Inr cl' \<Longrightarrow> d \<noteq> [] \<Longrightarrow>
   \<exists>s. parseDuration P d = Inr s \<and> map_of cl' k = Some (JNumber (Number_add P (Num (of_int now)) s))"
  by (auto simp: set_time_claim_def update_conv' split: sum.splits)

lemma set_string_claim_other:
  "k' \<noteq> k \<Longrightarrow> map_of (set_string_claim k f cl) k' = map_of cl k'"
  by (auto simp: set_string_claim_def update_conv' split: option.splits)

lemma set_string_claim_unset:
  "f = None \<or> f = Some [] \<Longrightarrow> set_string_claim k f cl = cl"
  by (auto simp: set_string_claim_def)

lemma set_string_claim_set:
  "v \<noteq> [] \<Longrightarrow> map_of (set_string_claim k (Some v) cl) k = Some (JString v)"
  by (simp add: set_string_claim_def update_conv')

lemma encrypt_claims_stages:
  assumes "encrypt_claims P payload options now j = Inr cl"
  obtains cl1 cl2 where
    "set_time_claim P ''exp'' now (opt expiresIn options)
       (AList.update ''jti'' (JString j) (AList.update ''iat'' (JNumber (Num (of_int now))) payload)) = Inr cl1"
    "set_time_claim P ''nbf'' now (opt notBefore options) cl1 = Inr cl2"
    "cl = set_string_claim ''aud'' (opt audience options)
            (set_string_claim ''iss'' (opt issuer options) cl2)"
  using assms by (auto simp: encrypt_claims_def Let_def split: sum.splits)

lemma encrypt_claims_lookup:
  assumes e: "encrypt_claims P payload options now j = Inr cl"
  shows "map_of cl ''iat'' = Some (JNumber (Num (of_int now)))"
    and "map_of cl ''jti'' = Some (JString j)"
    and "\<And>d. opt expiresIn options = Some d \<Longrightarrow> d \<noteq> [] \<Longrightarrow>
           \<exists>s. parseDuration P d = Inr s \<and> map_of cl ''exp'' = Some (JNumber (Number_add P (Num (of_int now)) s))"
    and "opt expiresIn options = None \<or> opt expiresIn options = Some [] \<Longrightarrow>
           map_of cl ''exp'' = map_of payload ''exp''"
    and "\<And>d. opt notBefore options = Some d \<Longrightarrow> d \<noteq> [] \<Longrightarrow>
           \<exists>s. parseDuration P d = Inr s \<and> map_of cl ''nbf'' = Some (JNumber (Number_add P (Num (of_int now)) s))"
    and "opt notBefore options = None \<or> opt notBefore options = Some [] \<Longrightarrow>
           map_of cl ''nbf'' = map_of payload ''nbf''"
    and "\<And>v. opt issuer options = Some v \<Longrightarrow> v \<noteq> [] \<Longrightarrow> map_of cl ''iss'' = Some (JString v)"
    and "opt issuer options = None \<or> opt issuer options = Some [] \<Longrightarrow>
           map_of cl ''iss'' = map_of payload ''iss''"
    and "\<And>v. opt audience options = Some v \<Longrightarrow> v \<noteq> [] \<Longrightarrow> map_of cl ''aud'' = Some (JString v)"
    and "opt audience options = None \<or> opt audience options = Some [] \<Longrightarrow>
           map_of cl ''aud'' = map_of payload ''aud''"
    and "\<And>k. k \<notin> {''iat'', ''jti'', ''exp'', ''nbf'', ''iss'', ''aud''} \<Longrightarrow>
           map_of cl k = map_of payload k"
proof -
  let ?cl0 = "AList.update ''jti'' (JString j) (AList.update ''iat'' (JNumber (Num (of_int now))) payload)"
  obtain cl1 cl2 where
    s1: "set_time_claim P ''exp'' now (opt expiresIn options) ?cl0 = Inr cl1" and
    s2: "set_time_claim P ''nbf'' now (opt notBefore options) cl1 = Inr cl2" and
    s3: "cl = set_string_claim ''aud'' (opt audience options)
            (set_string_claim ''iss'' (opt issuer options) cl2)"
    using encrypt_claims_stages[OF e] by blast
  have up: "map_of cl k = map_of cl1 k" if "k \<noteq> ''nbf''" "k \<noteq> ''iss''" "k \<noteq> ''aud''" for k
    using that by (simp add: s3 set_string_claim_other set_time_claim_other[OF s2])
  have up0: "map_of cl k = map_of ?cl0 k"
    if "k \<noteq> ''exp''" "k \<noteq> ''nbf''" "k \<noteq> ''iss''" "k \<noteq> ''aud''" for k
    using that by (simp add: up set_time_claim_other[OF s1])
  show "map_of cl ''iat'' = Some (JNumber (Num (of_int now)))" by (simp add: up0 update_conv')
  show "map_of cl ''jti'' = Some (JString j)" by (simp add: up0 update_conv')
  show "\<exists>s. parseDuration P d = Inr s \<and> map_of cl ''exp'' = Some (JNumber (Number_add P (Num (of_int now)) s))"
    if "opt expiresIn options = Some d" "d \<noteq> []" for d
    using set_time_claim_set[of P "''exp''" now d ?cl0 cl1] s1 that by (simp add: up)
  show "map_of cl ''exp'' = map_of payload ''exp''"
    if "opt expiresIn options = None \<or> opt expiresIn options = Some []"
  proof -
    have "cl1 = ?cl0" using s1 set_time_claim_unset[OF that, of P "''exp''" now ?cl0] by simp
    then show ?thesis by (simp add: up update_conv')
  qed
  have nbf: "map_of cl ''nbf'' = map_of cl2 ''nbf''"
    by (simp add: s3 set_string_claim_other)
  show "\<exists>s. parseDuration P d = Inr s \<and> map_of cl ''nbf'' = Some (JNumber (Number_add P (Num (of_int now)) s))"
    if "opt notBefore options = Some d" "d \<noteq> []" for d
    using set_time_claim_set[of P "''nbf''" now d cl1 cl2] s2 that by (simp add: nbf)
  show "map_of cl ''nbf'' = map_of payload ''nbf''"
    if "opt notBefore options = None \<or> opt notBefore options = Some []"
  proof -
    have "cl2 = cl1" using s2 set_time_claim_unset[OF that, of P "''nbf''" now cl1] by simp
    then show ?thesis by (simp add: nbf set_time_claim_other[OF s1] update_conv')
  qed
  have base: "map_of cl2 k = map_of payload k"
    if "k \<noteq> ''iat''" "k \<noteq> ''jti''" "k \<noteq> ''exp''" "k \<noteq> ''nbf''" for k
    using that by (simp add: set_time_claim_other[OF s2] set_time_claim_other[OF s1] update_conv')
  have iss: "map_of cl ''iss'' = map_of (set_string_claim ''iss'' (opt issuer options) cl2) ''iss''"
    by (simp add: s3 set_string_claim_other)
  show "map_of cl ''iss'' = Some (JString v)" if "opt issuer options = Some v" "v \<noteq> []" for v
    using that by (simp add: iss set_string_claim_set)
  show "map_of cl ''iss'' = map_of payload ''iss''"
    if "opt issuer options = None \<or> opt issuer options = Some []"
    by (simp add: iss set_string_claim_unset[OF that] base)
  show "map_of cl ''aud'' = Some (JString v)" if "opt audience options = Some v" "v \<noteq> []" for v
    using that by (simp add: s3 set_string_claim_set)
  show "map_of cl ''aud'' = map_of payload ''aud''"
    if "opt audience options = None \<or> opt audience options = Some []"
    by (simp add: s3 set_string_claim_unset[OF that] set_string_claim_other base)
  show "map_of cl k = map_of payload k"
    if "k \<notin> {''iat'', ''jti'', ''exp'', ''nbf'', ''iss'', ''aud''}" for k
    using that by (simp add: up0 update_conv')
qed

lemma encrypt_claims_valid:
  assumes "\<And>d. opt expiresIn options = Some d \<Longrightarrow> d \<noteq> [] \<Longrightarrow> \<exists>s. parseDuration P d = Inr s"
    and "\<And>d. opt notBefore options = Some d \<Longrightarrow> d \<noteq> [] \<Longrightarrow> \<exists>s. parseDuration P d = Inr s"
  shows "\<exists>cl. encrypt_claims P payload options now j = Inr cl"
proof -
  have t: "\<exists>cl'. set_time_claim P k now f cl = Inr cl'"
    if "\<And>d. f = Some d \<Longrightarrow> d \<noteq> [] \<Longrightarrow> \<exists>s. parseDuration P d = Inr s" for k f cl
  proof (cases f)
    case None
    then show ?thesis by (simp add: set_time_claim_def)
  next
    case (Some d)
    show ?thesis
    proof (cases "d = []")
      case True
      then show ?thesis using Some by (simp add: set_time_claim_def)
    next
      case False
      have "\<exists>s. parseDuration P d = Inr s" using that[OF Some False] .
      then obtain s where "parseDuration P d = Inr s" by blast
      then show ?thesis using Some False by (simp add: set_time_claim_def)
    qed
  qed
  let ?cl0 = "AList.update ''jti'' (JString j) (AList.update ''iat'' (JNumber (Num (of_int now))) payload)"
  obtain cl1 where 1: "set_time_claim P ''exp'' now (opt expiresIn options) ?cl0 = Inr cl1"
    using t[of "opt expiresIn options" "''exp''" ?cl0] assms(1) by blast
  obtain cl2 where 2: "set_time_claim P ''nbf'' now (opt notBefore options) cl1 = Inr cl2"
    using t[of "opt notBefore options" "''nbf''" cl1] assms(2) by blast
  show ?thesis by (simp add: encrypt_claims_def Let_def 1 2)
qed

subsection \<open>Durations where the arithmetic is exact\<close>

lemma digit_value_bounds: "0 \<le> digit_value c"
  by (auto simp: digit_value_def split: option.splits if_splits)

lemma decimal_value_nonneg: "0 \<le> decimal_value digits"
proof -
  have "0 \<le> n \<Longrightarrow> 0 \<le> foldl (\<lambda>n c. 10 * n + digit_value c) n digits" for n
    by (induction digits arbitrary: n) (simp_all add: digit_value_bounds)
  then show ?thesis by (simp add: decimal_value_def)
qed

lemma duration_match_digits:
  "duration_match d = Some (digits, u) \<Longrightarrow> digits \<noteq> [] \<and> list_all is_digit digits"
  by (auto simp: duration_match_def Let_def list_all_iff split: if_splits dest: set_takeWhileD)

lemma multipliers_bounds: "map_of multipliers u = Some m \<Longrightarrow> 1 \<le> m \<and> m \<le> 86400"
  by (auto simp: multipliers_def split: if_splits)

lemma duration_seconds_nonneg: "duration_seconds d = Some s \<Longrightarrow> 0 \<le> s"
  by (auto simp: duration_seconds_def decimal_value_nonneg split: option.splits
      dest!: multipliers_bounds)

lemma parseDuration_grammar:
  "(\<exists>x. parseDuration P d = Inr x) = (\<exists>s. duration_seconds d = Some s)"
  by (auto simp: parseDuration_def duration_seconds_def Let_def split: option.splits)

lemma parseDuration_exact:
  assumes ex: "number_exact P" and ds: "duration_seconds d = Some s" and le: "s \<le> 2 ^ 53"
  shows "parseDuration P d = Inr (Num (of_int s))"
proof -
  obtain digits u m where dm: "duration_match d = Some (digits, u)"
    and mu: "map_of multipliers (toLowerCase u) = Some m"
    and s: "s = decimal_value digits * m"
    using ds by (auto simp: duration_seconds_def split: option.splits)
  have m: "1 \<le> m" "m \<le> 86400" using multipliers_bounds[OF mu] by simp_all
  have v0: "0 \<le> decimal_value digits" by (rule decimal_value_nonneg)
  have "decimal_value digits * 1 \<le> decimal_value digits * m"
    using v0 m(1) by (rule mult_left_mono[OF _ _, rotated]) 
  then have vs: "decimal_value digits \<le> s" by (simp add: s)
  then have v53: "decimal_value digits \<le> 2 ^ 53" using le by simp
  have pi: "Number_parseInt P digits = Num (of_int (decimal_value digits))"
    using ex duration_match_digits[OF dm] v53 unfolding number_exact_def by blast
  have mul: "Number_multiply P (Num (of_int (decimal_value digits))) (Num (of_int m)) =
      Num (of_int (decimal_value digits * m))"
  proof -
    have a: "\<bar>decimal_value digits\<bar> \<le> 2 ^ 53" using v0 v53 by simp
    have b: "\<bar>m\<bar> \<le> 2 ^ 53" using m by simp
    have c: "\<bar>decimal_value digits * m\<bar> \<le> 2 ^ 53"
      using v0 m le s by (simp add: abs_mult)
    show ?thesis using ex a b c unfolding number_exact_def by blast
  qed
  show ?thesis by (simp add: parseDuration_def dm mu pi mul s)
qed

lemma time_claim_exact:
  assumes ex: "number_exact P" and ds: "duration_seconds d = Some s"
    and le: "\<bar>now\<bar> + s \<le> 2 ^ 53" and pd: "parseDuration P d = Inr x"
  shows "Number_add P (Num (of_int now)) x = Num (of_int (now + s))"
proof -
  have s0: "0 \<le> s" using ds by (rule duration_seconds_nonneg)
  have s53: "s \<le> 2 ^ 53" using le by simp
  have x: "x = Num (of_int s)" using parseDuration_exact[OF ex ds s53] pd by simp
  have le': "\<bar>now\<bar> + s \<le> 9007199254740992" using le by simp
  have "\<bar>now\<bar> \<le> 9007199254740992" using le' s0 by arith
  then have a: "\<bar>now\<bar> \<le> 2 ^ 53" by simp
  have b: "\<bar>s\<bar> \<le> 2 ^ 53" using s0 s53 by simp
  have "\<bar>now + s\<bar> \<le> 9007199254740992" using le' s0 by arith
  then have c: "\<bar>now + s\<bar> \<le> 2 ^ 53" by simp
  show ?thesis using ex a b c unfolding number_exact_def x by blast
qed


subsection \<open>The time checks on a payload\<close>

lemma check_nbf_cases:
  "check_nbf P now payload = Inl e \<Longrightarrow>
     (e = JsTypeError \<and> payload = JNull) \<or>
     (\<exists>n. get_prop payload ''nbf'' = Inr (Some (JNumber n)) \<and>
          number_gt n (Num (of_int now)) \<and>
          e = TokenNotActiveError (new_Date (Number_multiply P n (Num 1000))))"
  by (auto simp: check_nbf_def get_prop_def split: sum.splits option.splits json.splits if_splits)

lemma check_time_claims_cases:
  "check_time_claims P now payload = Inl e \<Longrightarrow>
     (e = JsTypeError \<and> payload = JNull) \<or>
     (\<exists>n. get_prop payload ''exp'' = Inr (Some (JNumber n)) \<and>
          number_le n (Num (of_int now)) \<and>
          e = TokenExpiredError (new_Date (Number_multiply P n (Num 1000)))) \<or>
     (\<exists>n. get_prop payload ''nbf'' = Inr (Some (JNumber n)) \<and>
          number_gt n (Num (of_int now)) \<and>
          e = TokenNotActiveError (new_Date (Number_multiply P n (Num 1000))))"
proof -
  assume a: "check_time_claims P now payload = Inl e"
  show ?thesis
  proof (cases "check_nbf P now payload = Inl e")
    case True
    then show ?thesis using check_nbf_cases by blast
  next
    case False
    then show ?thesis using a
      by (auto simp: check_time_claims_def get_prop_def
          split: sum.splits option.splits json.splits if_splits)
  qed
qed

lemma decrypt_opened:
  assumes "split_dot token = [TECTO_PREFIX, TECTO_VERSION, kid, nonceB64, ciphertextB64]"
    and "getKey ks kid = Inr key"
    and "base64url_decode P nonceB64 = Some nonce"
    and "base64url_decode P ciphertextB64 = Some ciphertext"
    and "length nonce = NONCE_LENGTH"
    and "xchacha20poly1305_decrypt P (buffers ks key) nonce ciphertext = Some plaintext"
    and "JSON_parse P (TextDecoder_decode P plaintext) = Some payload"
  shows "decrypt P ks clock token = check_time_claims P (clock div 1000) payload"
  using assms by (simp add: decrypt_def SEGMENT_COUNT_def)

lemma decrypt_error_cases:
  assumes "decrypt P ks clock token = Inl e" and "e \<noteq> InvalidSignatureError"
  shows "\<exists>kid nonceB64 ciphertextB64 key nonce ciphertext plaintext payload.
           split_dot token = [TECTO_PREFIX, TECTO_VERSION, kid, nonceB64, ciphertextB64] \<and>
           getKey ks kid = Inr key \<and>
           base64url_decode P nonceB64 = Some nonce \<and>
           base64url_decode P ciphertextB64 = Some ciphertext \<and>
           length nonce = NONCE_LENGTH \<and>
           xchacha20poly1305_decrypt P (buffers ks key) nonce ciphertext = Some plaintext \<and>
           JSON_parse P (TextDecoder_decode P plaintext) = Some payload \<and>
           check_time_claims P (clock div 1000) payload = Inl e"
proof -
  have len: "length (split_dot token) = SEGMENT_COUNT"
    using assms by (auto simp: decrypt_def Let_def split: if_splits)
  then obtain p v kid n c where seg: "split_dot token = [p, v, kid, n, c]"
    by (auto simp: SEGMENT_COUNT_def length_Suc_conv eval_nat_numeral)
  have pv: "p = TECTO_PREFIX" "v = TECTO_VERSION"
    using assms seg by (auto simp: decrypt_def Let_def SEGMENT_COUNT_def split: if_splits)
  obtain key where key: "getKey ks kid = Inr key"
    using assms seg pv by (cases "getKey ks kid") (auto simp: decrypt_def SEGMENT_COUNT_def)
  obtain nonce where nonce: "base64url_decode P n = Some nonce"
    using assms seg pv key
    by (cases "base64url_decode P n") (auto simp: decrypt_def SEGMENT_COUNT_def)
  obtain ct where ct: "base64url_decode P c = Some ct"
    using assms seg pv key nonce
    by (cases "base64url_decode P c") (auto simp: decrypt_def SEGMENT_COUNT_def)
  have nl: "length nonce = NONCE_LENGTH"
    using assms seg pv key nonce ct
    by (auto simp: decrypt_def SEGMENT_COUNT_def split: if_splits)
  obtain pt where pt: "xchacha20poly1305_decrypt P (buffers ks key) nonce ct = Some pt"
    using assms seg pv key nonce ct nl
    by (cases "xchacha20poly1305_decrypt P (buffers ks key) nonce ct")
      (auto simp: decrypt_def SEGMENT_COUNT_def)
  obtain payload where pl: "JSON_parse P (TextDecoder_decode P pt) = Some payload"
    using assms seg pv key nonce ct nl pt
    by (cases "JSON_parse P (TextDecoder_decode P pt)") (auto simp: decrypt_def SEGMENT_COUNT_def)
  have "check_time_claims P (clock div 1000) payload = Inl e"
    using assms(1) decrypt_opened[OF seg[unfolded pv] key nonce ct nl pt pl] by simp
  then show ?thesis using seg pv key nonce ct nl pt pl by blast
qed

subsection \<open>C2: one error for everything before authentication\<close>

text \<open>
  Claim C2. Whenever \<open>decrypt\<close> throws anything but \<open>InvalidSignatureError\<close>, the token had
  five segments with the right tags, its key was found, both segments decoded, the nonce
  had 24 bytes, the cipher opened the ciphertext and the plaintext parsed: the error then
  comes from the time checks on the parsed payload. And on the empty string, on a wrong
  number of segments, on a wrong tag, an unknown key id, an undecodable segment, a nonce
  of another length, a ciphertext the cipher refuses, or a plaintext that does not parse,
  \<open>decrypt\<close> throws exactly \<open>InvalidSignatureError\<close>.
\<close>

theorem decrypt_generic_failure:
  "(decrypt P ks clock token = Inl e \<and> e \<noteq> InvalidSignatureError \<longrightarrow>
      (\<exists>kid nonceB64 ciphertextB64 key nonce ciphertext plaintext payload.
         split_dot token = [TECTO_PREFIX, TECTO_VERSION, kid, nonceB64, ciphertextB64] \<and>
         getKey ks kid = Inr key \<and>
         base64url_decode P nonceB64 = Some nonce \<and>
         base64url_decode P ciphertextB64 = Some ciphertext \<and>
         length nonce = 24 \<and>
         xchacha20poly1305_decrypt P (buffers ks key) nonce ciphertext = Some plaintext \<and>
         JSON_parse P (TextDecoder_decode P plaintext) = Some payload \<and>
         check_time_claims P (clock div 1000) payload = Inl e)) \<and>
   decrypt P ks clock [] = Inl InvalidSignatureError \<and>
   (length (split_dot token) \<noteq> 5 \<longrightarrow> decrypt P ks clock token = Inl InvalidSignatureError) \<and>
   (split_dot token = [prefix, version, kid, nonceB64, ciphertextB64] \<and>
    (prefix \<noteq> ''tecto'' \<or> version \<noteq> ''v1'' \<or>
     (\<exists>e'. getKey ks kid = Inl e') \<or>
     base64url_decode P nonceB64 = None \<or>
     base64url_decode P ciphertextB64 = None \<or>
     (\<exists>nonce. base64url_decode P nonceB64 = Some nonce \<and> length nonce \<noteq> 24) \<or>
     (\<exists>key nonce ciphertext.
        getKey ks kid = Inr key \<and> base64url_decode P nonceB64 = Some nonce \<and>
        base64url_decode P ciphertextB64 = Some ciphertext \<and>
        xchacha20poly1305_decrypt P (buffers ks key) nonce ciphertext = None) \<or>
     (\<exists>key nonce ciphertext plaintext.
        getKey ks kid = Inr key \<and> base64url_decode P nonceB64 = Some nonce \<and>
        base64url_decode P ciphertextB64 = Some ciphertext \<and>
        xchacha20poly1305_decrypt P (buffers ks key) nonce ciphertext = Some plaintext \<and>
        JSON_parse P (TextDecoder_decode P plaintext) = None)) \<longrightarrow>
      decrypt P ks clock token = Inl InvalidSignatureError)"
proof -
  have 1: "decrypt P ks clock token = Inl e \<and> e \<noteq> InvalidSignatureError \<longrightarrow>
      (\<exists>kid nonceB64 ciphertextB64 key nonce ciphertext plaintext payload.
         split_dot token = [TECTO_PREFIX, TECTO_VERSION, kid, nonceB64, ciphertextB64] \<and>
         getKey ks kid = Inr key \<and>
         base64url_decode P nonceB64 = Some nonce \<and>
         base64url_decode P ciphertextB64 = Some ciphertext \<and>
         length nonce = 24 \<and>
         xchacha20poly1305_decrypt P (buffers ks key) nonce ciphertext = Some plaintext \<and>
         JSON_parse P (TextDecoder_decode P plaintext) = Some payload \<and>
         check_time_claims P (clock div 1000) payload = Inl e)"
    using decrypt_error_cases[of P ks clock token e] unfolding NONCE_LENGTH_def by blast
  have 2: "decrypt P ks clock [] = Inl InvalidSignatureError"
    by (simp add: decrypt_def SEGMENT_COUNT_def)
  have 3: "length (split_dot token) \<noteq> 5 \<longrightarrow> decrypt P ks clock token = Inl InvalidSignatureError"
    by (simp add: decrypt_def SEGMENT_COUNT_def)
  have 4: "split_dot token = [prefix, version, kid, nonceB64, ciphertextB64] \<and>
    (prefix \<noteq> ''tecto'' \<or> version \<noteq> ''v1'' \<or>
     (\<exists>e'. getKey ks kid = Inl e') \<or>
     base64url_decode P nonceB64 = None \<or>
     base64url_decode P ciphertextB64 = None \<or>
     (\<exists>nonce. base64url_decode P nonceB64 = Some nonce \<and> length nonce \<noteq> 24) \<or>
     (\<exists>key nonce ciphertext.
        getKey ks kid = Inr key \<and> base64url_decode P nonceB64 = Some nonce \<and>
        base64url_decode P ciphertextB64 = Some ciphertext \<and>
        xchacha20poly1305_decrypt P (buffers ks key) nonce ciphertext = None) \<or>
     (\<exists>key nonce ciphertext plaintext.
        getKey ks kid = Inr key \<and> base64url_decode P nonceB64 = Some nonce \<and>
        base64url_decode P ciphertextB64 = Some ciphertext \<and>
        xchacha20poly1305_decrypt P (buffers ks key) nonce ciphertext = Some plaintext \<and>
        JSON_parse P (TextDecoder_decode P plaintext) = None)) \<longrightarrow>
      decrypt P ks clock token = Inl InvalidSignatureError"
    by (auto simp: decrypt_def SEGMENT_COUNT_def NONCE_LENGTH_def TECTO_PREFIX_def
        TECTO_VERSION_def split: sum.splits option.splits)
  show ?thesis using 1 2 3 4 by blast
qed

subsection \<open>The engine on the reference platform\<close>

lemma store1_ok: "store_ok store1"
  unfolding store1_def by (rule store_ok_run)

lemma store1_current: "currentKeyId store1 = Some ''k1''"
  by (simp add: store1_eq)

lemma store1_k1: "map_of (keys store1) ''k1'' = Some 0" "buffers store1 0 = good_key"
  by (simp_all add: store1_eq)

lemma store_dot_eq:
  "store_dot = \<lparr>buffers = (\<lambda>r. [])(0 := good_key), fresh = 1, keys = [(''a.b'', 0)],
                currentKeyId = Some ''a.b''\<rparr>"
  by (simp add: store_dot_def run_def addKey_accept[OF good_key_ok] new_MemoryKeyStore_def)

lemma store_dot_ok: "store_ok store_dot"
  unfolding store_dot_def by (rule store_ok_run)

lemma parseDuration_1h: "parseDuration ref_platform ''1h'' = Inr (Num 3600)"
  by (simp add: parseDuration_def duration_match_def is_digit_def is_space_def decimal_value_def
      digit_value_def toLowerCase_def multipliers_def ref_platform_def ref_parseInt_def
      ref_multiply_def)

lemma parseDuration_2h: "parseDuration ref_platform ''2h'' = Inr (Num 7200)"
  by (simp add: parseDuration_def duration_match_def is_digit_def is_space_def decimal_value_def
      digit_value_def toLowerCase_def multipliers_def ref_platform_def ref_parseInt_def
      ref_multiply_def)

lemma encrypt_claims1: "encrypt_claims ref_platform payload1 options1 1000 ''id1'' = Inr claims1"
  by (simp add: encrypt_claims_def set_time_claim_def set_string_claim_def opt_def options1_def
      payload1_def claims1_def parseDuration_1h ref_add_Num)

lemma encrypt_claims2: "encrypt_claims ref_platform payload1 options2 1000 ''id1'' = Inr claims2"
  by (simp add: encrypt_claims_def set_time_claim_def set_string_claim_def opt_def options2_def
      payload1_def claims2_def parseDuration_1h parseDuration_2h ref_add_Num)

lemma decimal_examples:
  "decimal 1000 = ''1000''" "decimal 4600 = ''4600''" "decimal 8200 = ''8200''"
  by (simp_all add: decimal.simps hex_digit_def)

lemma json_roundtrip1: "json_roundtrip ref_platform (JObject claims1)"
  by (simp add: json_roundtrip_def ref_platform_def ref_utf8_roundtrip ref_stringify_def
      ref_parse_def claims1_def ref_property_def decimal_examples ref_parse_property_def
      is_digit_def decimal_value_def digit_value_def)

lemma json_roundtrip2: "json_roundtrip ref_platform (JObject claims2)"
  by (simp add: json_roundtrip_def ref_platform_def ref_utf8_roundtrip ref_stringify_def
      ref_parse_def claims2_def ref_property_def decimal_examples ref_parse_property_def
      is_digit_def decimal_value_def digit_value_def)

lemma encrypt_claims3: "encrypt_claims ref_platform payload3 options3 1000 ''id1'' = Inr claims3"
  by (simp add: encrypt_claims_def set_time_claim_def set_string_claim_def opt_def options3_def
      payload3_def claims3_def)

lemma json_roundtrip3: "json_roundtrip ref_platform (JObject claims3)"
  by (simp add: json_roundtrip_def ref_platform_def ref_utf8_roundtrip ref_stringify_def
      ref_parse_def claims3_def ref_property_def decimal_examples ref_parse_property_def
      is_digit_def decimal_value_def digit_value_def)

lemma token2_opens:
  "\<exists>ct. token2 = frame ''k1'' (ref_encode (encrypt_nonce options2 rng0)) (ref_encode ct) \<and>
        ref_open good_key (encrypt_nonce options2 rng0) ct =
          Some (ref_utf8_encode (ref_stringify (JObject claims2)))"
proof -
  have j: "fst (resolve_jti options2 rng0) = ''id1''"
    by (simp add: resolve_jti_def opt_def options2_def)
  have cl: "encrypt_claims ref_platform payload1 options2 (1000000 div 1000) (fst (resolve_jti options2 rng0)) =
      Inr claims2"
    by (simp add: j encrypt_claims2)
  obtain key ct where key: "map_of (keys store1) ''k1'' = Some key"
    and op: "xchacha20poly1305_decrypt ref_platform (buffers store1 key) (encrypt_nonce options2 rng0) ct =
             Some (TextEncoder_encode ref_platform (JSON_stringify ref_platform (JObject claims2)))"
    and enc: "fst (encrypt ref_platform store1 1000000 rng0 payload1 options2) =
             Inr (frame ''k1'' (base64url_encode ref_platform (encrypt_nonce options2 rng0))
                    (base64url_encode ref_platform ct))"
    using encrypt_result[OF store1_ok store1_current ref_aead_correct cl] by force
  have k0: "key = 0" using key store1_k1 by simp
  show ?thesis
    using op enc by (auto simp: token2_def k0 store1_k1 ref_platform_def)
qed

lemma token2_decrypt:
  "decrypt ref_platform store1 clock token2 =
     check_time_claims ref_platform (clock div 1000) (JObject claims2)"
proof -
  obtain ct where t: "token2 = frame ''k1'' (ref_encode (encrypt_nonce options2 rng0)) (ref_encode ct)"
    and op: "ref_open good_key (encrypt_nonce options2 rng0) ct =
          Some (ref_utf8_encode (ref_stringify (JObject claims2)))"
    using token2_opens by blast
  have nodot: "CHR ''.'' \<notin> set ''k1''" by simp
  have op': "xchacha20poly1305_decrypt ref_platform (buffers store1 0) (encrypt_nonce options2 rng0) ct =
      Some (ref_utf8_encode (ref_stringify (JObject claims2)))"
    using op by (simp add: ref_platform_def store1_k1)
  have parse: "JSON_parse ref_platform (TextDecoder_decode ref_platform
      (ref_utf8_encode (ref_stringify (JObject claims2)))) = Some (JObject claims2)"
    using json_roundtrip2 by (simp add: json_roundtrip_def ref_platform_def)
  show ?thesis
    using decrypt_frame[OF nodot ref_base64url_correct store1_k1(1) length_encrypt_nonce op' parse]
    by (simp add: t ref_platform_def)
qed

lemma token2_segments:
  "\<exists>ct. split_dot token2 =
          [TECTO_PREFIX, TECTO_VERSION, ''k1'', ref_encode (encrypt_nonce options2 rng0), ref_encode ct] \<and>
        ref_open good_key (encrypt_nonce options2 rng0) ct =
          Some (ref_utf8_encode (ref_stringify (JObject claims2)))"
proof -
  obtain ct where t: "token2 = frame ''k1'' (ref_encode (encrypt_nonce options2 rng0)) (ref_encode ct)"
    and op: "ref_open good_key (encrypt_nonce options2 rng0) ct =
          Some (ref_utf8_encode (ref_stringify (JObject claims2)))"
    using token2_opens by blast
  have "split_dot token2 =
      [TECTO_PREFIX, TECTO_VERSION, ''k1'', ref_encode (encrypt_nonce options2 rng0), ref_encode ct]"
    by (simp add: t split_dot_frame split_dot_no_dot[OF ref_encode_no_dot])
  then show ?thesis using op by blast
qed

text \<open>
  Eight tokens the reference platform and a one-key store refuse, each with
  \<open>InvalidSignatureError\<close>: the empty string, four segments, a wrong prefix, a wrong
  version, an unknown key id, a nonce that does not decode, a one-byte nonce, and a
  ciphertext too short to carry a tag.
\<close>

theorem decrypt_generic_failure_witness:
  "decrypt ref_platform store1 0 '''' = Inl InvalidSignatureError \<and>
   decrypt ref_platform store1 0 ''tecto.v1.kid.nonce'' = Inl InvalidSignatureError \<and>
   decrypt ref_platform store1 0 ''jwt.v1.k1.00.00'' = Inl InvalidSignatureError \<and>
   decrypt ref_platform store1 0 ''tecto.v2.k1.00.00'' = Inl InvalidSignatureError \<and>
   decrypt ref_platform store1 0 ''tecto.v1.k9.00.00'' = Inl InvalidSignatureError \<and>
   decrypt ref_platform store1 0 ''tecto.v1.k1.zz.00'' = Inl InvalidSignatureError \<and>
   decrypt ref_platform store1 0 ''tecto.v1.k1.00.00'' = Inl InvalidSignatureError \<and>
   decrypt ref_platform store1 0
     ''tecto.v1.k1.000000000000000000000000000000000000000000000000.00'' =
     Inl InvalidSignatureError"
proof -
  note T = decrypt_generic_failure[where P = ref_platform and ks = store1 and clock = 0]
  have d00: "base64url_decode ref_platform ''00'' = Some [0]"
    and dzz: "base64url_decode ref_platform ''zz'' = None"
    and dn: "base64url_decode ref_platform ''000000000000000000000000000000000000000000000000'' =
      Some (replicate 24 0)"
    unfolding ref_platform_def by code_simp+
  have g1: "getKey store1 ''k1'' = Inr 0" and g9: "getKey store1 ''k9'' = Inl (KeyError (KeyNotFound ''k9''))"
    by (simp_all add: getKey_def store1_eq)
  have op: "xchacha20poly1305_decrypt ref_platform (buffers store1 0) (replicate 24 0) [0] = None"
    by (simp add: ref_platform_def ref_open_def)
  have 1: "decrypt ref_platform store1 0 '''' = Inl InvalidSignatureError"
    using T[of "''''"] by simp
  have 2: "decrypt ref_platform store1 0 ''tecto.v1.kid.nonce'' = Inl InvalidSignatureError"
    using T[of "''tecto.v1.kid.nonce''"] by simp
  have 3: "decrypt ref_platform store1 0 ''jwt.v1.k1.00.00'' = Inl InvalidSignatureError"
    using T[of "''jwt.v1.k1.00.00''" _ "''jwt''" "''v1''" "''k1''" "''00''" "''00''"] by simp
  have 4: "decrypt ref_platform store1 0 ''tecto.v2.k1.00.00'' = Inl InvalidSignatureError"
    using T[of "''tecto.v2.k1.00.00''" _ "''tecto''" "''v2''" "''k1''" "''00''" "''00''"] by simp
  have 5: "decrypt ref_platform store1 0 ''tecto.v1.k9.00.00'' = Inl InvalidSignatureError"
    using T[of "''tecto.v1.k9.00.00''" _ "''tecto''" "''v1''" "''k9''" "''00''" "''00''"] g9 by simp
  have 6: "decrypt ref_platform store1 0 ''tecto.v1.k1.zz.00'' = Inl InvalidSignatureError"
    using T[of "''tecto.v1.k1.zz.00''" _ "''tecto''" "''v1''" "''k1''" "''zz''" "''00''"] dzz
    by simp
  have 7: "decrypt ref_platform store1 0 ''tecto.v1.k1.00.00'' = Inl InvalidSignatureError"
    using T[of "''tecto.v1.k1.00.00''" _ "''tecto''" "''v1''" "''k1''" "''00''" "''00''"] d00
    by simp
  have 8: "decrypt ref_platform store1 0
     ''tecto.v1.k1.000000000000000000000000000000000000000000000000.00'' =
     Inl InvalidSignatureError"
    using T[of "''tecto.v1.k1.000000000000000000000000000000000000000000000000.00''" _
        "''tecto''" "''v1''" "''k1''" "''000000000000000000000000000000000000000000000000''" "''00''"]
      d00 dn g1 op
    by simp
  show ?thesis using 1 2 3 4 5 6 7 8 by blast
qed

subsection \<open>C4: the time checks\<close>




lemma roundtrip_eq:
  assumes ok: "store_ok ks" and cur: "currentKeyId ks = Some kid"
    and nodot: "CHR ''.'' \<notin> set kid"
    and aead: "aead_correct P" and b64: "base64url_correct P"
    and cl: "encrypt_claims P payload options (clock div 1000) (fst (resolve_jti options g)) = Inr cl"
    and json: "json_roundtrip P (JObject cl)"
  shows "roundtrip P ks clock clock' g payload options =
           check_time_claims P (clock' div 1000) (JObject cl)"
  using decrypt_encrypt[OF ok cur nodot aead b64 cl json, of clock'] by (auto simp: roundtrip_def)

lemma check_time_claims_pass:
  assumes "\<forall>n. map_of cl ''exp'' = Some (JNumber n) \<longrightarrow> \<not> number_le n (Num (of_int now))"
    and "\<forall>n. map_of cl ''nbf'' = Some (JNumber n) \<longrightarrow> \<not> number_gt n (Num (of_int now))"
  shows "check_time_claims P now (JObject cl) = Inr (JObject cl)"
proof -
  have n: "check_nbf P now (JObject cl) = Inr (JObject cl)"
    using assms(2) by (auto simp: check_nbf_def get_prop_def split: option.splits json.splits)
  show ?thesis
    using assms(1) n by (auto simp: check_time_claims_def get_prop_def split: option.splits json.splits)
qed

subsection \<open>C1: the round trip\<close>

text \<open>
  Claim C1, amended. Let the store be well formed with current key id \<open>kid\<close>, which holds
  no dot; let the cipher and the text encoding be correct; let the options be valid, so
  that \<open>encrypt\<close> assembles the claim set \<open>cl\<close>, and let \<open>cl\<close> survive JSON serialisation;
  and let \<open>decrypt\<close> run at a time when \<open>cl\<close> has not expired and is active. Then
  \<open>decrypt\<close> of the token \<open>encrypt\<close> returns is \<open>cl\<close>, and \<open>cl\<close> holds: \<open>iat\<close>, the time of
  sealing; \<open>jti\<close>, the caller's or the generated one; \<open>exp\<close>, \<open>nbf\<close>, \<open>iss\<close>, \<open>aud\<close> from the
  options that are set to a non-empty string, with \<open>exp = iat + parseDuration(expiresIn)\<close>
  and \<open>nbf = iat + parseDuration(notBefore)\<close> in the arithmetic of doubles, and from the
  payload otherwise; and every other field of the payload. When that arithmetic is exact
  on whole numbers up to \<open>2 ^ 53\<close>, and the duration denotes \<open>s\<close> seconds with
  \<open>|iat| + s\<close> at most \<open>2 ^ 53\<close>, then \<open>exp\<close> (or \<open>nbf\<close>) is the whole number \<open>iat + s\<close>;
  beyond that bound the sum is the double the runtime rounds to.

  As stated the claim fails: \<open>decrypt\<close> checks the time claims, so a token with
  \<open>notBefore\<close> is refused until it is active; a dot in the key id makes the token
  unreadable; an option set to the empty string counts as not set; and \<open>iat\<close> and \<open>jti\<close>
  replace fields of the payload with these names. By \<open>encrypt_claims_valid\<close>, \<open>encrypt\<close>
  assembles a claim set whenever the durations given parse, which by
  \<open>parseDuration_grammar\<close> they do when they follow the duration grammar; by
  \<open>store_has_current\<close>, a well-formed store with a key has a current key.
\<close>

theorem encrypt_decrypt_roundtrip:
  assumes "store_ok ks" and "currentKeyId ks = Some kid" and "CHR ''.'' \<notin> set kid"
    and "aead_correct P" and "base64url_correct P"
    and "encrypt_claims P payload options (clock div 1000) (fst (resolve_jti options g)) = Inr cl"
    and "json_roundtrip P (JObject cl)"
    and "\<forall>n. map_of cl ''exp'' = Some (JNumber n) \<longrightarrow>
              \<not> number_le n (Num (of_int (clock' div 1000)))"
    and "\<forall>n. map_of cl ''nbf'' = Some (JNumber n) \<longrightarrow>
              \<not> number_gt n (Num (of_int (clock' div 1000)))"
  shows
    "roundtrip P ks clock clock' g payload options = Inr (JObject cl) \<and>
     map_of cl ''iat'' = Some (JNumber (Num (of_int (clock div 1000)))) \<and>
     (\<forall>j. opt jti options = Some j \<longrightarrow> map_of cl ''jti'' = Some (JString j)) \<and>
     (opt jti options = None \<longrightarrow> map_of cl ''jti'' = Some (JString (fst (generateJti g)))) \<and>
     (\<forall>d. opt expiresIn options = Some d \<and> d \<noteq> [] \<longrightarrow>
        (\<exists>x. parseDuration P d = Inr x \<and>
             map_of cl ''exp'' =
               Some (JNumber (Number_add P (Num (of_int (clock div 1000))) x)))) \<and>
     (\<forall>d s. opt expiresIn options = Some d \<and> d \<noteq> [] \<and> number_exact P \<and>
            duration_seconds d = Some s \<and> \<bar>clock div 1000\<bar> + s \<le> 2 ^ 53 \<longrightarrow>
        map_of cl ''exp'' = Some (JNumber (Num (of_int (clock div 1000 + s))))) \<and>
     (opt expiresIn options = None \<or> opt expiresIn options = Some [] \<longrightarrow>
        map_of cl ''exp'' = map_of payload ''exp'') \<and>
     (\<forall>d. opt notBefore options = Some d \<and> d \<noteq> [] \<longrightarrow>
        (\<exists>x. parseDuration P d = Inr x \<and>
             map_of cl ''nbf'' =
               Some (JNumber (Number_add P (Num (of_int (clock div 1000))) x)))) \<and>
     (\<forall>d s. opt notBefore options = Some d \<and> d \<noteq> [] \<and> number_exact P \<and>
            duration_seconds d = Some s \<and> \<bar>clock div 1000\<bar> + s \<le> 2 ^ 53 \<longrightarrow>
        map_of cl ''nbf'' = Some (JNumber (Num (of_int (clock div 1000 + s))))) \<and>
     (opt notBefore options = None \<or> opt notBefore options = Some [] \<longrightarrow>
        map_of cl ''nbf'' = map_of payload ''nbf'') \<and>
     (\<forall>v. opt issuer options = Some v \<and> v \<noteq> [] \<longrightarrow> map_of cl ''iss'' = Some (JString v)) \<and>
     (opt issuer options = None \<or> opt issuer options = Some [] \<longrightarrow>
        map_of cl ''iss'' = map_of payload ''iss'') \<and>
     (\<forall>v. opt audience options = Some v \<and> v \<noteq> [] \<longrightarrow> map_of cl ''aud'' = Some (JString v)) \<and>
     (opt audience options = None \<or> opt audience options = Some [] \<longrightarrow>
        map_of cl ''aud'' = map_of payload ''aud'') \<and>
     (\<forall>k. k \<notin> {''iat'', ''jti'', ''exp'', ''nbf'', ''iss'', ''aud''} \<longrightarrow>
        map_of cl k = map_of payload k)"
proof -
  note L = encrypt_claims_lookup[OF assms(6)]
  have r: "roundtrip P ks clock clock' g payload options = Inr (JObject cl)"
    using roundtrip_eq[OF assms(1-7), of clock'] check_time_claims_pass[OF assms(8,9)] by simp
  have j1: "\<forall>j. opt jti options = Some j \<longrightarrow> map_of cl ''jti'' = Some (JString j)"
    using L(2) by (simp add: resolve_jti_def)
  have j2: "opt jti options = None \<longrightarrow> map_of cl ''jti'' = Some (JString (fst (generateJti g)))"
    using L(2) by (simp add: resolve_jti_def)
  have e: "map_of cl ''exp'' = Some (JNumber (Num (of_int (clock div 1000 + s))))"
    if o: "opt expiresIn options = Some d" "d \<noteq> []"
      and b: "number_exact P" "duration_seconds d = Some s" "\<bar>clock div 1000\<bar> + s \<le> 2 ^ 53"
    for d s
  proof -
    obtain x where x: "parseDuration P d = Inr x"
      and m: "map_of cl ''exp'' = Some (JNumber (Number_add P (Num (of_int (clock div 1000))) x))"
      using L(3)[OF o] by blast
    show ?thesis unfolding m using time_claim_exact[OF b x] by simp
  qed
  have n: "map_of cl ''nbf'' = Some (JNumber (Num (of_int (clock div 1000 + s))))"
    if o: "opt notBefore options = Some d" "d \<noteq> []"
      and b: "number_exact P" "duration_seconds d = Some s" "\<bar>clock div 1000\<bar> + s \<le> 2 ^ 53"
    for d s
  proof -
    obtain x where x: "parseDuration P d = Inr x"
      and m: "map_of cl ''nbf'' = Some (JNumber (Number_add P (Num (of_int (clock div 1000))) x))"
      using L(5)[OF o] by blast
    show ?thesis unfolding m using time_claim_exact[OF b x] by simp
  qed
  have e': "\<forall>d s. opt expiresIn options = Some d \<and> d \<noteq> [] \<and> number_exact P \<and>
            duration_seconds d = Some s \<and> \<bar>clock div 1000\<bar> + s \<le> 2 ^ 53 \<longrightarrow>
        map_of cl ''exp'' = Some (JNumber (Num (of_int (clock div 1000 + s))))"
    using e by blast
  have n': "\<forall>d s. opt notBefore options = Some d \<and> d \<noteq> [] \<and> number_exact P \<and>
            duration_seconds d = Some s \<and> \<bar>clock div 1000\<bar> + s \<le> 2 ^ 53 \<longrightarrow>
        map_of cl ''nbf'' = Some (JNumber (Num (of_int (clock div 1000 + s))))"
    using n by blast
  show ?thesis
  proof (intro conjI)
    show "roundtrip P ks clock clock' g payload options = Inr (JObject cl)" by (rule r)
    show "map_of cl ''iat'' = Some (JNumber (Num (of_int (clock div 1000))))" by (rule L(1))
    show "\<forall>j. opt jti options = Some j \<longrightarrow> map_of cl ''jti'' = Some (JString j)" by (rule j1)
    show "opt jti options = None \<longrightarrow> map_of cl ''jti'' = Some (JString (fst (generateJti g)))"
      by (rule j2)
    show "\<forall>d. opt expiresIn options = Some d \<and> d \<noteq> [] \<longrightarrow>
        (\<exists>x. parseDuration P d = Inr x \<and>
             map_of cl ''exp'' =
               Some (JNumber (Number_add P (Num (of_int (clock div 1000))) x)))"
      using L(3) by blast
    show "\<forall>d s. opt expiresIn options = Some d \<and> d \<noteq> [] \<and> number_exact P \<and>
            duration_seconds d = Some s \<and> \<bar>clock div 1000\<bar> + s \<le> 2 ^ 53 \<longrightarrow>
        map_of cl ''exp'' = Some (JNumber (Num (of_int (clock div 1000 + s))))" by (rule e')
    show "opt expiresIn options = None \<or> opt expiresIn options = Some [] \<longrightarrow>
        map_of cl ''exp'' = map_of payload ''exp''" using L(4) by blast
    show "\<forall>d. opt notBefore options = Some d \<and> d \<noteq> [] \<longrightarrow>
        (\<exists>x. parseDuration P d = Inr x \<and>
             map_of cl ''nbf'' =
               Some (JNumber (Number_add P (Num (of_int (clock div 1000))) x)))"
      using L(5) by blast
    show "\<forall>d s. opt notBefore options = Some d \<and> d \<noteq> [] \<and> number_exact P \<and>
            duration_seconds d = Some s \<and> \<bar>clock div 1000\<bar> + s \<le> 2 ^ 53 \<longrightarrow>
        map_of cl ''nbf'' = Some (JNumber (Num (of_int (clock div 1000 + s))))" by (rule n')
    show "opt notBefore options = None \<or> opt notBefore options = Some [] \<longrightarrow>
        map_of cl ''nbf'' = map_of payload ''nbf''" using L(6) by blast
    show "\<forall>v. opt issuer options = Some v \<and> v \<noteq> [] \<longrightarrow> map_of cl ''iss'' = Some (JString v)"
      using L(7) by blast
    show "opt issuer options = None \<or> opt issuer options = Some [] \<longrightarrow>
        map_of cl ''iss'' = map_of payload ''iss''" using L(8) by blast
    show "\<forall>v. opt audience options = Some v \<and> v \<noteq> [] \<longrightarrow> map_of cl ''aud'' = Some (JString v)"
      using L(9) by blast
    show "opt audience options = None \<or> opt audience options = Some [] \<longrightarrow>
        map_of cl ''aud'' = map_of payload ''aud''" using L(10) by blast
    show "\<forall>k. k \<notin> {''iat'', ''jti'', ''exp'', ''nbf'', ''iss'', ''aud''} \<longrightarrow>
        map_of cl k = map_of payload k" using L(11) by blast
  qed
qed

text \<open>
  The scenario of the specification: key \<open>k1\<close>, payload \<open>{role: "admin"}\<close>, \<open>expiresIn: "1h"\<close>,
  sealed at second 1000 and opened at second 2000.
\<close>

theorem encrypt_decrypt_roundtrip_witness:
  "roundtrip ref_platform store1 1000000 2000000 rng0 payload1 options1 = Inr (JObject claims1) \<and>
   map_of claims1 ''role'' = Some (JString ''admin'') \<and>
   map_of claims1 ''iat'' = Some (JNumber (Num 1000)) \<and>
   map_of claims1 ''jti'' = Some (JString ''id1'') \<and>
   duration_seconds ''1h'' = Some 3600 \<and>
   map_of claims1 ''exp'' = Some (JNumber (Num (1000 + 3600))) \<and>
   map_of claims1 ''nbf'' = None"
proof -
  have j: "fst (resolve_jti options1 rng0) = ''id1''"
    by (simp add: resolve_jti_def opt_def options1_def)
  have cl: "encrypt_claims ref_platform payload1 options1 (1000000 div 1000) (fst (resolve_jti options1 rng0)) =
      Inr claims1"
    by (simp add: j encrypt_claims1)
  have nodot: "CHR ''.'' \<notin> set ''k1''" by simp
  have e: "\<forall>n. map_of claims1 ''exp'' = Some (JNumber n) \<longrightarrow>
               \<not> number_le n (Num (of_int (2000000 div 1000)))"
    and n: "\<forall>n. map_of claims1 ''nbf'' = Some (JNumber n) \<longrightarrow>
               \<not> number_gt n (Num (of_int (2000000 div 1000)))"
    by (simp_all add: claims1_def)
  have ds: "duration_seconds ''1h'' = Some 3600"
    by (simp add: duration_seconds_def duration_match_def is_digit_def is_space_def
        decimal_value_def digit_value_def toLowerCase_def multipliers_def)
  have o: "opt expiresIn options1 = Some ''1h''" by (simp add: opt_def options1_def)
  have b: "\<bar>1000000 div 1000\<bar> + 3600 \<le> (2 ^ 53 :: int)" by simp
  note T = encrypt_decrypt_roundtrip[OF store1_ok store1_current nodot ref_aead_correct
        ref_base64url_correct cl json_roundtrip1 e n]
  note E = T[THEN conjunct2, THEN conjunct2, THEN conjunct2, THEN conjunct2, THEN conjunct2,
      THEN conjunct1, rule_format]
  have x: "map_of claims1 ''exp'' = Some (JNumber (Num (of_int (1000000 div 1000 + 3600))))"
    by (rule E[of "''1h''" 3600]) (simp add: o ds ref_number_exact)
  have r: "roundtrip ref_platform store1 1000000 2000000 rng0 payload1 options1 = Inr (JObject claims1)"
    by (rule T[THEN conjunct1])
  show ?thesis
    using r x ds by (simp add: claims1_def)
qed

text \<open>
  Three round trips on the reference platform. With \<open>notBefore: "1h"\<close>, \<open>decrypt\<close> at the
  time of sealing throws \<open>TokenNotActiveError\<close>. Under the key id \<open>a.b\<close>, \<open>decrypt\<close> throws
  \<open>InvalidSignatureError\<close>. With \<open>issuer: ""\<close> and a payload \<open>{iat: 5}\<close>, the claim set
  returned has no \<open>iss\<close> and has \<open>iat = 1000\<close>.
\<close>

theorem roundtrip_counterexample:
  "roundtrip ref_platform store1 1000000 1000000 rng0 payload1 options2 =
     Inl (TokenNotActiveError (Date 4600000)) \<and>
   roundtrip ref_platform store_dot 1000000 2000000 rng0 payload1 options1 =
     Inl InvalidSignatureError \<and>
   roundtrip ref_platform store1 1000000 2000000 rng0 payload3 options3 = Inr (JObject claims3)"
proof -
  have nodot: "CHR ''.'' \<notin> set ''k1''" by simp
  have j2: "fst (resolve_jti options2 rng0) = ''id1''"
    by (simp add: resolve_jti_def opt_def options2_def)
  have cl2: "encrypt_claims ref_platform payload1 options2 (1000000 div 1000) (fst (resolve_jti options2 rng0)) =
      Inr claims2"
    by (simp add: j2 encrypt_claims2)
  have "roundtrip ref_platform store1 1000000 1000000 rng0 payload1 options2 =
      check_time_claims ref_platform (1000000 div 1000) (JObject claims2)"
    by (rule roundtrip_eq[OF store1_ok store1_current nodot ref_aead_correct
        ref_base64url_correct cl2 json_roundtrip2])
  then have 1: "roundtrip ref_platform store1 1000000 1000000 rng0 payload1 options2 =
     Inl (TokenNotActiveError (Date 4600000))"
    by (simp add: check_time_claims_def check_nbf_def get_prop_def claims2_def ref_multiply_Num
        new_Date_def)
  have j1: "fst (resolve_jti options1 rng0) = ''id1''"
    by (simp add: resolve_jti_def opt_def options1_def)
  have cl1: "encrypt_claims ref_platform payload1 options1 (1000000 div 1000) (fst (resolve_jti options1 rng0)) =
      Inr claims1"
    by (simp add: j1 encrypt_claims1)
  have cur: "currentKeyId store_dot = Some ''a.b''" by (simp add: store_dot_eq)
  obtain ct where e: "fst (encrypt ref_platform store_dot 1000000 rng0 payload1 options1) =
      Inr (frame ''a.b'' (ref_encode (encrypt_nonce options1 rng0)) (ref_encode ct))"
    using encrypt_result[OF store_dot_ok cur ref_aead_correct cl1]
    by (auto simp: ref_platform_def)
  have six: "length (split_dot (frame ''a.b'' (ref_encode (encrypt_nonce options1 rng0)) (ref_encode ct))) = 6"
    by (simp add: split_dot_frame split_dot_no_dot[OF ref_encode_no_dot])
  have 2: "roundtrip ref_platform store_dot 1000000 2000000 rng0 payload1 options1 =
     Inl InvalidSignatureError"
    using six by (simp add: roundtrip_def e decrypt_def SEGMENT_COUNT_def)
  have j3: "fst (resolve_jti options3 rng0) = ''id1''"
    by (simp add: resolve_jti_def opt_def options3_def)
  have cl3: "encrypt_claims ref_platform payload3 options3 (1000000 div 1000) (fst (resolve_jti options3 rng0)) =
      Inr claims3"
    by (simp add: j3 encrypt_claims3)
  have "roundtrip ref_platform store1 1000000 2000000 rng0 payload3 options3 =
      check_time_claims ref_platform (2000000 div 1000) (JObject claims3)"
    by (rule roundtrip_eq[OF store1_ok store1_current nodot ref_aead_correct
        ref_base64url_correct cl3 json_roundtrip3])
  then have 3: "roundtrip ref_platform store1 1000000 2000000 rng0 payload3 options3 =
      Inr (JObject claims3)"
    by (simp add: check_time_claims_def check_nbf_def get_prop_def claims3_def)
  show ?thesis using 1 2 3 by blast
qed

subsection \<open>The token \<open>encrypt\<close> returns\<close>

lemma encrypt_returns:
  assumes "fst (encrypt P ks clock g payload options) = Inr token"
  shows "\<exists>kid key cl ct.
           currentKeyId ks = Some kid \<and> map_of (keys ks) kid = Some key \<and>
           encrypt_claims P payload options (clock div 1000) (fst (resolve_jti options g)) = Inr cl \<and>
           xchacha20poly1305_encrypt P (buffers ks key) (encrypt_nonce options g)
             (TextEncoder_encode P (JSON_stringify P (JObject cl))) = Some ct \<and>
           token = frame kid (base64url_encode P (encrypt_nonce options g)) (base64url_encode P ct) \<and>
           snd (encrypt P ks clock g payload options) =
             snd (getRandomValues NONCE_LENGTH (snd (resolve_jti options g)))"
proof -
  obtain kid where kid: "currentKeyId ks = Some kid"
    using assms by (cases "currentKeyId ks") (simp_all add: encrypt_def getCurrentKeyId_def)
  obtain key where key: "map_of (keys ks) kid = Some key"
    using assms kid
    by (cases "map_of (keys ks) kid") (simp_all add: encrypt_def getCurrentKeyId_def getKey_def)
  obtain j g1 where r: "resolve_jti options g = (j, g1)" by (cases "resolve_jti options g")
  obtain nonce g2 where n: "getRandomValues NONCE_LENGTH g1 = (nonce, g2)"
    by (cases "getRandomValues NONCE_LENGTH g1")
  have nonce: "encrypt_nonce options g = nonce" by (simp add: encrypt_nonce_def r n)
  obtain cl where cl: "encrypt_claims P payload options (clock div 1000) j = Inr cl"
    using assms kid key r
    by (cases "encrypt_claims P payload options (clock div 1000) j")
      (simp_all add: encrypt_def getCurrentKeyId_def getKey_def Let_def)
  let ?pt = "TextEncoder_encode P (JSON_stringify P (JObject cl))"
  obtain ct where ct: "xchacha20poly1305_encrypt P (buffers ks key) nonce ?pt = Some ct"
    using assms kid key r cl n
    by (cases "xchacha20poly1305_encrypt P (buffers ks key) nonce ?pt")
      (simp_all add: encrypt_def getCurrentKeyId_def getKey_def Let_def)
  have e: "encrypt P ks clock g payload options =
      (Inr (frame kid (base64url_encode P nonce) (base64url_encode P ct)), g2)"
    using kid key r cl n ct by (simp add: encrypt_def getCurrentKeyId_def getKey_def Let_def)
  show ?thesis
    using kid key cl ct e assms nonce r n by auto
qed

subsection \<open>C3: the wire format\<close>

text \<open>
  Claim C3, amended. When the current key id holds no dot and the text encoding is
  correct, a token \<open>encrypt\<close> returns splits on dots into exactly five segments: \<open>tecto\<close>,
  \<open>v1\<close>, the current key id, the encoding of the nonce drawn, which decodes to 24 bytes,
  and the encoding of the ciphertext the cipher returned for the serialised claims.

  As stated the claim fails: \<open>addKey\<close> accepts every string as key id, and a dot in the
  key id adds a segment.
\<close>

theorem encrypt_wire_format:
  assumes "currentKeyId ks = Some kid" and "CHR ''.'' \<notin> set kid"
    and "base64url_correct P"
    and "fst (encrypt P ks clock g payload options) = Inr token"
  shows "\<exists>key cl ciphertext.
           getKey ks kid = Inr key \<and>
           encrypt_claims P payload options (clock div 1000) (fst (resolve_jti options g)) = Inr cl \<and>
           xchacha20poly1305_encrypt P (buffers ks key) (encrypt_nonce options g)
             (TextEncoder_encode P (JSON_stringify P (JObject cl))) = Some ciphertext \<and>
           split_dot token =
             [''tecto'', ''v1'', kid, base64url_encode P (encrypt_nonce options g),
              base64url_encode P ciphertext] \<and>
           base64url_decode P (base64url_encode P (encrypt_nonce options g)) =
             Some (encrypt_nonce options g) \<and>
           length (encrypt_nonce options g) = 24 \<and>
           base64url_decode P (base64url_encode P ciphertext) = Some ciphertext"
proof -
  obtain kid' key cl ct where kid': "currentKeyId ks = Some kid'"
    and key: "map_of (keys ks) kid' = Some key"
    and cl: "encrypt_claims P payload options (clock div 1000) (fst (resolve_jti options g)) = Inr cl"
    and ct: "xchacha20poly1305_encrypt P (buffers ks key) (encrypt_nonce options g)
             (TextEncoder_encode P (JSON_stringify P (JObject cl))) = Some ct"
    and t: "token = frame kid' (base64url_encode P (encrypt_nonce options g)) (base64url_encode P ct)"
    using encrypt_returns[OF assms(4)] by blast
  have k: "kid' = kid" using kid' assms(1) by simp
  have dn: "base64url_decode P (base64url_encode P (encrypt_nonce options g)) =
      Some (encrypt_nonce options g)"
    and dc: "base64url_decode P (base64url_encode P ct) = Some ct"
    and nn: "CHR ''.'' \<notin> set (base64url_encode P (encrypt_nonce options g))"
    and nc: "CHR ''.'' \<notin> set (base64url_encode P ct)"
    using assms(3) unfolding base64url_correct_def by simp_all
  have seg: "split_dot token =
      [''tecto'', ''v1'', kid, base64url_encode P (encrypt_nonce options g), base64url_encode P ct]"
    by (simp add: t k split_dot_frame split_dot_no_dot[OF assms(2)] split_dot_no_dot[OF nn]
        split_dot_no_dot[OF nc] TECTO_PREFIX_def TECTO_VERSION_def)
  show ?thesis
    using key k cl ct seg dn dc length_encrypt_nonce[of options g] getKey_stored[OF key]
    by blast
qed

lemma encrypt1_returns:
  "\<exists>ct. fst (encrypt ref_platform store1 1000000 rng0 payload1 options1) =
          Inr (frame ''k1'' (ref_encode (encrypt_nonce options1 rng0)) (ref_encode ct)) \<and>
        snd (encrypt ref_platform store1 1000000 rng0 payload1 options1) = rng0"
proof -
  have r: "resolve_jti options1 rng0 = (''id1'', rng0)"
    by (simp add: resolve_jti_def opt_def options1_def)
  have cl: "encrypt_claims ref_platform payload1 options1 (1000000 div 1000) (fst (resolve_jti options1 rng0)) =
      Inr claims1"
    by (simp add: r encrypt_claims1)
  have g: "snd (getRandomValues NONCE_LENGTH rng0) = rng0"
    by (simp add: getRandomValues_def rng0_def)
  show ?thesis
    using encrypt_result[OF store1_ok store1_current ref_aead_correct cl]
    by (auto simp: ref_platform_def r g)
qed

text \<open>
  The token for the payload \<open>{role: "admin"}\<close> under key \<open>k1\<close>.
\<close>

theorem encrypt_wire_format_witness:
  "fst (encrypt ref_platform store1 1000000 rng0 payload1 options1) = Inr token1 \<and>
   length (split_dot token1) = 5 \<and>
   take 3 (split_dot token1) = [''tecto'', ''v1'', ''k1'']"
proof -
  obtain ct where e: "fst (encrypt ref_platform store1 1000000 rng0 payload1 options1) =
          Inr (frame ''k1'' (ref_encode (encrypt_nonce options1 rng0)) (ref_encode ct))"
    using encrypt1_returns by blast
  have t: "fst (encrypt ref_platform store1 1000000 rng0 payload1 options1) = Inr token1"
    by (simp add: token1_def e)
  have nodot: "CHR ''.'' \<notin> set ''k1''" by simp
  obtain n c where "split_dot token1 = [''tecto'', ''v1'', ''k1'', n, c]"
    using encrypt_wire_format[OF store1_current nodot ref_base64url_correct t] by blast
  then show ?thesis using t by simp
qed

text \<open>
  \<open>addKey\<close> accepts the id \<open>a.b\<close>; the token sealed under it has six segments.
\<close>

theorem wire_format_counterexample:
  "addKey new_MemoryKeyStore ''a.b'' good_key = (Inr (), store_dot) \<and>
   map_sum id (\<lambda>token. length (split_dot token))
     (fst (encrypt ref_platform store_dot 1000000 rng0 payload1 options1)) = Inr 6"
proof -
  have a: "addKey new_MemoryKeyStore ''a.b'' good_key = (Inr (), store_dot)"
    by (simp add: addKey_accept[OF good_key_ok] store_dot_eq new_MemoryKeyStore_def)
  have r: "resolve_jti options1 rng0 = (''id1'', rng0)"
    by (simp add: resolve_jti_def opt_def options1_def)
  have cl: "encrypt_claims ref_platform payload1 options1 (1000000 div 1000) (fst (resolve_jti options1 rng0)) =
      Inr claims1"
    by (simp add: r encrypt_claims1)
  have cur: "currentKeyId store_dot = Some ''a.b''" by (simp add: store_dot_eq)
  obtain ct where e: "fst (encrypt ref_platform store_dot 1000000 rng0 payload1 options1) =
      Inr (frame ''a.b'' (ref_encode (encrypt_nonce options1 rng0)) (ref_encode ct))"
    using encrypt_result[OF store_dot_ok cur ref_aead_correct cl]
    by (auto simp: ref_platform_def)
  have "length (split_dot (frame ''a.b'' (ref_encode (encrypt_nonce options1 rng0)) (ref_encode ct))) = 6"
    by (simp add: split_dot_frame split_dot_no_dot[OF ref_encode_no_dot])
  then show ?thesis using a e by simp
qed

subsection \<open>C9: fresh nonces\<close>

lemma map_shift_upt: "map (\<lambda>i. f (i + n)) [a..<b] = map f [a + n..<b + n]"
proof (rule nth_equalityI)
  show "length (map (\<lambda>i. f (i + n)) [a..<b]) = length (map f [a + n..<b + n])" by simp
next
  fix i assume "i < length (map (\<lambda>i. f (i + n)) [a..<b])"
  then have i: "i < b - a" by simp
  have e: "a + i + n = a + n + i" by simp
  have "map (\<lambda>i. f (i + n)) [a..<b] ! i = f (a + i + n)"
    using i by (simp add: nth_map_upt)
  moreover have "map f [a + n..<b + n] ! i = f (a + n + i)"
    using i by (simp add: nth_map_upt)
  ultimately show "map (\<lambda>i. f (i + n)) [a..<b] ! i = map f [a + n..<b + n] ! i"
    by (simp only: e)
qed

lemma resolve_jti_stream: "snd (resolve_jti options g) = (\<lambda>i. g (i + jti_draw options))"
  by (auto simp: resolve_jti_def generateJti_def getRandomValues_def jti_draw_def
      split: option.splits)

lemma encrypt_nonce_stream:
  "encrypt_nonce options g = map g [jti_draw options..<jti_draw options + 24]"
proof -
  have "encrypt_nonce options g = map (\<lambda>i. g (i + jti_draw options)) [0..<24]"
    by (simp add: encrypt_nonce_def resolve_jti_stream getRandomValues_def NONCE_LENGTH_def)
  also have "\<dots> = map g [0 + jti_draw options..<24 + jti_draw options]"
    by (rule map_shift_upt)
  also have "\<dots> = map g [jti_draw options..<jti_draw options + 24]"
    by (simp add: add.commute)
  finally show ?thesis .
qed

lemma encrypt_stream:
  assumes "fst (encrypt P ks clock g payload options) = Inr token"
  shows "snd (encrypt P ks clock g payload options) = (\<lambda>i. g (i + (jti_draw options + 24)))"
proof -
  have "snd (encrypt P ks clock g payload options) =
      snd (getRandomValues NONCE_LENGTH (snd (resolve_jti options g)))"
    using encrypt_returns[OF assms] by blast
  then show ?thesis
    by (simp add: resolve_jti_stream getRandomValues_def NONCE_LENGTH_def add.assoc add.commute[of 24])
qed

lemma frame_nonce_inject:
  assumes "frame kid n c = frame kid n' c'"
    and "CHR ''.'' \<notin> set n" and "CHR ''.'' \<notin> set n'"
  shows "n = n'"
proof -
  have "n @ CHR ''.'' # c = n' @ CHR ''.'' # c'"
    using assms(1) by (simp add: frame_def)
  then have "takeWhile (\<lambda>x. x \<noteq> CHR ''.'') (n @ CHR ''.'' # c) =
      takeWhile (\<lambda>x. x \<noteq> CHR ''.'') (n' @ CHR ''.'' # c')" by simp
  moreover have "takeWhile (\<lambda>x. x \<noteq> CHR ''.'') n = n" "takeWhile (\<lambda>x. x \<noteq> CHR ''.'') n' = n'"
    using assms(2,3) by auto
  ultimately show ?thesis by (simp add: takeWhile_tail)
qed

lemma second_nonce_stream:
  assumes "encrypt P ks clock1 g payload options = (Inr tokenA, g1)"
  shows "encrypt_nonce options g1 =
      map g [jti_draw options + (jti_draw options + 24)..<
             jti_draw options + 24 + (jti_draw options + 24)]"
proof -
  have f1: "fst (encrypt P ks clock1 g payload options) = Inr tokenA"
    using assms by simp
  have "snd (encrypt P ks clock1 g payload options) = g1"
    using assms by simp
  then have g1: "g1 = (\<lambda>i. g (i + (jti_draw options + 24)))"
    using encrypt_stream[OF f1] by simp
  have "encrypt_nonce options g1 =
      map (\<lambda>i. g (i + (jti_draw options + 24))) [jti_draw options..<jti_draw options + 24]"
    unfolding g1 by (rule encrypt_nonce_stream)
  also have "\<dots> = map g [jti_draw options + (jti_draw options + 24)..<
             jti_draw options + 24 + (jti_draw options + 24)]"
    by (rule map_shift_upt)
  finally show ?thesis .
qed

lemma distinct_nonce_distinct_frame:
  assumes b64: "base64url_correct P" and d: "n1 \<noteq> n2"
  shows "frame kid (base64url_encode P n1) c1 \<noteq> frame kid (base64url_encode P n2) c2"
proof
  assume e: "frame kid (base64url_encode P n1) c1 = frame kid (base64url_encode P n2) c2"
  have nd: "CHR ''.'' \<notin> set (base64url_encode P bytes)" for bytes
    using b64 unfolding base64url_correct_def by simp
  have dec: "base64url_decode P (base64url_encode P bytes) = Some bytes" for bytes
    using b64 unfolding base64url_correct_def by simp
  have "base64url_encode P n1 = base64url_encode P n2"
    using e nd nd by (rule frame_nonce_inject)
  then have "base64url_decode P (base64url_encode P n1) = base64url_decode P (base64url_encode P n2)"
    by (rule arg_cong)
  then have "Some n1 = Some n2" unfolding dec .
  then show False using d by simp
qed

text \<open>
  Claim C9, amended. Two calls of \<open>encrypt\<close> with the same arguments, one after the other,
  draw their nonces from consecutive, disjoint stretches of the random stream (each call
  takes 16 bytes for a generated jti, if any, and then 24 for the nonce); whenever the two
  nonces differ, the two tokens differ.

  As stated the claim fails: nothing but the random source keeps the nonces apart, and
  a source that repeats itself gives the same token twice.
\<close>

theorem fresh_nonce_distinct_tokens:
  assumes "base64url_correct P"
    and "encrypt P ks clock1 g payload options = (Inr tokenA, g1)"
    and "encrypt P ks clock2 g1 payload options = (Inr tokenB, g2)"
  shows "encrypt_nonce options g = map g [jti_draw options..<jti_draw options + 24] \<and>
         encrypt_nonce options g1 =
           map g [jti_draw options + (jti_draw options + 24)..<
                  jti_draw options + 24 + (jti_draw options + 24)] \<and>
         (encrypt_nonce options g \<noteq> encrypt_nonce options g1 \<longrightarrow> tokenA \<noteq> tokenB)"
proof (intro conjI impI)
  show "encrypt_nonce options g = map g [jti_draw options..<jti_draw options + 24]"
    by (rule encrypt_nonce_stream)
  show "encrypt_nonce options g1 =
      map g [jti_draw options + (jti_draw options + 24)..<
             jti_draw options + 24 + (jti_draw options + 24)]"
    using assms(2) by (rule second_nonce_stream)
  show "tokenA \<noteq> tokenB" if d: "encrypt_nonce options g \<noteq> encrypt_nonce options g1"
  proof -
    have f1: "fst (encrypt P ks clock1 g payload options) = Inr tokenA"
      and f2: "fst (encrypt P ks clock2 g1 payload options) = Inr tokenB"
      using assms(2,3) by simp_all
    from encrypt_returns[OF f1] obtain kid key cl ct where kid: "currentKeyId ks = Some kid"
      and t1: "tokenA = frame kid (base64url_encode P (encrypt_nonce options g)) (base64url_encode P ct)"
      by (elim exE conjE)
    from encrypt_returns[OF f2] obtain kid' key' cl' ct' where kid': "currentKeyId ks = Some kid'"
      and t2: "tokenB = frame kid' (base64url_encode P (encrypt_nonce options g1)) (base64url_encode P ct')"
      by (elim exE conjE)
    have k: "kid' = kid" using kid kid' by simp
    show ?thesis
      unfolding t1 t2 k using assms(1) d by (rule distinct_nonce_distinct_frame)
  qed
qed

lemma encrypt1_pair:
  "\<exists>ct. encrypt ref_platform store1 clock g payload1 options1 =
          (Inr (frame ''k1'' (ref_encode (encrypt_nonce options1 g)) (ref_encode ct)),
           (\<lambda>i. g (i + 24)))"
proof -
  have r: "resolve_jti options1 g = (''id1'', g)"
    by (simp add: resolve_jti_def opt_def options1_def)
  have "\<exists>cl. encrypt_claims ref_platform payload1 options1 (clock div 1000) ''id1'' = Inr cl"
    by (rule encrypt_claims_valid) (auto simp: opt_def options1_def parseDuration_1h)
  then obtain cl where
    cl: "encrypt_claims ref_platform payload1 options1 (clock div 1000) (fst (resolve_jti options1 g)) = Inr cl"
    using r by auto
  have g: "snd (getRandomValues NONCE_LENGTH g) = (\<lambda>i. g (i + 24))"
    by (simp add: getRandomValues_def NONCE_LENGTH_def)
  show ?thesis
    using encrypt_result[OF store1_ok store1_current ref_aead_correct cl]
    by (auto simp: ref_platform_def r g)
qed

text \<open>
  With the random stream 0, 1, 2, ... the two nonces start with 0 and with 24.
\<close>

theorem fresh_nonce_distinct_tokens_witness:
  "\<exists>t1 t2. encrypt_twice ref_platform store1 1000000 1000000 rng1 payload1 options1 =
             (Inr t1, Inr t2) \<and> t1 \<noteq> t2"
proof -
  obtain ct where e1: "encrypt ref_platform store1 1000000 rng1 payload1 options1 =
      (Inr (frame ''k1'' (ref_encode (encrypt_nonce options1 rng1)) (ref_encode ct)),
       (\<lambda>i. rng1 (i + 24)))"
    using encrypt1_pair by blast
  obtain ct' where e2: "encrypt ref_platform store1 1000000 (\<lambda>i. rng1 (i + 24)) payload1 options1 =
      (Inr (frame ''k1'' (ref_encode (encrypt_nonce options1 (\<lambda>i. rng1 (i + 24)))) (ref_encode ct')),
       (\<lambda>i. rng1 (i + 24 + 24)))"
    using encrypt1_pair by blast
  have d: "jti_draw options1 = 0" by (simp add: jti_draw_def opt_def options1_def)
  have a: "encrypt_nonce options1 rng1 ! 0 = 0"
    by (simp add: encrypt_nonce_stream d rng1_def nth_map_upt)
  have b: "encrypt_nonce options1 (\<lambda>i. rng1 (i + 24)) ! 0 = 24"
    by (simp add: encrypt_nonce_stream d rng1_def nth_map_upt)
  have ne: "encrypt_nonce options1 rng1 \<noteq> encrypt_nonce options1 (\<lambda>i. rng1 (i + 24))"
  proof
    assume "encrypt_nonce options1 rng1 = encrypt_nonce options1 (\<lambda>i. rng1 (i + 24))"
    then have "(0::byte) = 24" using a b by simp
    then show False by simp
  qed
  note T = fresh_nonce_distinct_tokens[OF ref_base64url_correct e1 e2]
  have "frame ''k1'' (ref_encode (encrypt_nonce options1 rng1)) (ref_encode ct) \<noteq>
      frame ''k1'' (ref_encode (encrypt_nonce options1 (\<lambda>i. rng1 (i + 24)))) (ref_encode ct')"
    by (rule mp[OF conjunct2[OF conjunct2[OF T]] ne])
  then show ?thesis
    unfolding encrypt_twice_def e1 by (simp add: e2)
qed

text \<open>
  With a random stream of zeros, at the same clock value and with the jti given, both
  calls return the same token.
\<close>

theorem fresh_nonce_counterexample:
  "encrypt_twice ref_platform store1 1000000 1000000 rng0 payload1 options1 =
     (Inr token1, Inr token1)"
proof -
  obtain ct where e: "encrypt ref_platform store1 1000000 rng0 payload1 options1 =
      (Inr (frame ''k1'' (ref_encode (encrypt_nonce options1 rng0)) (ref_encode ct)),
       (\<lambda>i. rng0 (i + 24)))"
    using encrypt1_pair by blast
  have g: "(\<lambda>i. rng0 (i + 24)) = rng0" by (simp add: rng0_def)
  show ?thesis
    by (simp add: encrypt_twice_def e g token1_def)
qed

subsection \<open>C5: rotation\<close>

lemma decrypt_via_secret:
  "split_dot token = [p, v, kid, n, c] \<Longrightarrow>
   decrypt P ks clock token =
     (if p \<noteq> TECTO_PREFIX \<or> v \<noteq> TECTO_VERSION then Inl InvalidSignatureError
      else (case secret_of ks kid of
              None \<Rightarrow> Inl InvalidSignatureError
            | Some secret \<Rightarrow>
               (case base64url_decode P n of
                  None \<Rightarrow> Inl InvalidSignatureError
                | Some nonce \<Rightarrow>
                   (case base64url_decode P c of
                      None \<Rightarrow> Inl InvalidSignatureError
                    | Some ciphertext \<Rightarrow>
                       if length nonce \<noteq> NONCE_LENGTH then Inl InvalidSignatureError
                       else (case xchacha20poly1305_decrypt P secret nonce ciphertext of
                               None \<Rightarrow> Inl InvalidSignatureError
                             | Some plaintext \<Rightarrow>
                                (case JSON_parse P (TextDecoder_decode P plaintext) of
                                   None \<Rightarrow> Inl InvalidSignatureError
                                 | Some payload \<Rightarrow>
                                     check_time_claims P (clock div 1000) payload))))))"
  by (simp add: decrypt_def secret_of_def getKey_def SEGMENT_COUNT_def split: option.splits)

lemma decrypt_same_secret:
  assumes "\<And>p v kid n c. split_dot token = [p, v, kid, n, c] \<Longrightarrow>
             secret_of s1 kid = secret_of s kid"
  shows "decrypt P s1 clock token = decrypt P s clock token"
proof (cases "length (split_dot token) = 5")
  case False
  then show ?thesis by (simp add: decrypt_def SEGMENT_COUNT_def)
next
  case True
  then obtain p v kid n c where seg: "split_dot token = [p, v, kid, n, c]"
    by (auto simp: length_Suc_conv eval_nat_numeral)
  show ?thesis
    by (simp only: decrypt_via_secret[OF seg] assms[OF seg])
qed

lemma rotate_secrets:
  assumes ok: "store_ok s" and rot: "rotate s newId newSecret = (Inr (), s1)"
  shows "secret_of s1 newId = Some newSecret"
    and "currentKeyId s1 = Some newId"
    and "k \<noteq> newId \<Longrightarrow> secret_of s1 k = secret_of s k"
proof -
  have ent: "assertEntropy newSecret = Inr ()"
    using rot by (cases "assertEntropy newSecret") (simp_all add: rotate_reject)
  have s1: "s1 = s\<lparr>buffers := (buffers s)(fresh s := newSecret), fresh := Suc (fresh s),
               keys := AList.update newId (fresh s) (keys s), currentKeyId := Some newId\<rparr>"
    using rot by (simp add: rotate_accept[OF ent])
  show "secret_of s1 newId = Some newSecret"
    by (simp add: s1 secret_of_def update_conv')
  show "currentKeyId s1 = Some newId" by (simp add: s1)
  show "secret_of s1 k = secret_of s k" if ne: "k \<noteq> newId"
  proof (cases "map_of (keys s) k")
    case None
    then show ?thesis using ne by (simp add: s1 secret_of_def update_conv')
  next
    case (Some r)
    have "r < fresh s" using stored_secret_length[OF ok Some] by simp
    then show ?thesis using ne Some by (simp add: s1 secret_of_def update_conv')
  qed
qed

text \<open>
  Claim C5, amended. \<open>rotate\<close> returns what \<open>addKey\<close> returns; when \<open>addKey\<close> returns
  normally the store is the one \<open>addKey\<close> left with \<open>newId\<close> as current id, and when it throws
  the store is the one \<open>addKey\<close> left. After a rotation that returns, on a well-formed
  store: \<open>newId\<close> holds \<open>newSecret\<close> and is current; every other id holds the bytes it held;
  every token whose key id is not \<open>newId\<close> decrypts as before; every token \<open>encrypt\<close>
  returns is framed with \<open>newId\<close>.

  As stated the claim fails when \<open>newId\<close> is an id the store already holds: the \<open>Map\<close>
  entry is overwritten.
\<close>

theorem rotate_adds_and_selects:
  "fst (rotate s newId newSecret) = fst (addKey s newId newSecret) \<and>
   (fst (addKey s newId newSecret) = Inr () \<longrightarrow>
      snd (rotate s newId newSecret) = (snd (addKey s newId newSecret))\<lparr>currentKeyId := Some newId\<rparr>) \<and>
   (fst (addKey s newId newSecret) \<noteq> Inr () \<longrightarrow>
      snd (rotate s newId newSecret) = snd (addKey s newId newSecret)) \<and>
   (store_ok s \<and> rotate s newId newSecret = (Inr (), s1) \<longrightarrow>
      secret_of s1 newId = Some newSecret \<and>
      currentKeyId s1 = Some newId \<and>
      (\<forall>k. k \<noteq> newId \<longrightarrow> secret_of s1 k = secret_of s k) \<and>
      (\<forall>token. (\<forall>p v n c. split_dot token \<noteq> [p, v, newId, n, c]) \<longrightarrow>
         decrypt P s1 clock token = decrypt P s clock token) \<and>
      (\<forall>token. fst (encrypt P s1 clock' g payload options) = Inr token \<longrightarrow>
         (\<exists>n c. token = frame newId n c)))"
proof -
  have 1: "fst (rotate s newId newSecret) = fst (addKey s newId newSecret)"
    by (simp add: rotate_def split: prod.splits sum.splits)
  have 2: "fst (addKey s newId newSecret) = Inr () \<longrightarrow>
      snd (rotate s newId newSecret) = (snd (addKey s newId newSecret))\<lparr>currentKeyId := Some newId\<rparr>"
    by (auto simp: rotate_def split: prod.splits sum.splits)
  have 3: "fst (addKey s newId newSecret) \<noteq> Inr () \<longrightarrow>
      snd (rotate s newId newSecret) = snd (addKey s newId newSecret)"
    by (auto simp: rotate_def split: prod.splits sum.splits)
  have 4: "secret_of s1 newId = Some newSecret \<and>
      currentKeyId s1 = Some newId \<and>
      (\<forall>k. k \<noteq> newId \<longrightarrow> secret_of s1 k = secret_of s k) \<and>
      (\<forall>token. (\<forall>p v n c. split_dot token \<noteq> [p, v, newId, n, c]) \<longrightarrow>
         decrypt P s1 clock token = decrypt P s clock token) \<and>
      (\<forall>token. fst (encrypt P s1 clock' g payload options) = Inr token \<longrightarrow>
         (\<exists>n c. token = frame newId n c))"
    if ok: "store_ok s" and rot: "rotate s newId newSecret = (Inr (), s1)"
  proof (intro conjI allI impI)
    note R = rotate_secrets[OF ok rot]
    show "secret_of s1 newId = Some newSecret" by (rule R(1))
    show "currentKeyId s1 = Some newId" by (rule R(2))
    show "secret_of s1 k = secret_of s k" if "k \<noteq> newId" for k using that by (rule R(3))
    show "decrypt P s1 clock token = decrypt P s clock token"
      if t: "\<forall>p v n c. split_dot token \<noteq> [p, v, newId, n, c]" for token
    proof (rule decrypt_same_secret)
      fix p v kid n c assume seg: "split_dot token = [p, v, kid, n, c]"
      have "kid \<noteq> newId" using t seg by auto
      then show "secret_of s1 kid = secret_of s kid" by (rule R(3))
    qed
    show "\<exists>n c. token = frame newId n c"
      if e: "fst (encrypt P s1 clock' g payload options) = Inr token" for token
    proof -
      from encrypt_returns[OF e] obtain kid key cl ct where kid: "currentKeyId s1 = Some kid"
        and t: "token = frame kid (base64url_encode P (encrypt_nonce options g)) (base64url_encode P ct)"
        by (elim exE conjE)
      have "kid = newId" using kid R(2) by simp
      then show ?thesis using t by blast
    qed
  qed
  have 5: "store_ok s \<and> rotate s newId newSecret = (Inr (), s1) \<longrightarrow>
      secret_of s1 newId = Some newSecret \<and>
      currentKeyId s1 = Some newId \<and>
      (\<forall>k. k \<noteq> newId \<longrightarrow> secret_of s1 k = secret_of s k) \<and>
      (\<forall>token. (\<forall>p v n c. split_dot token \<noteq> [p, v, newId, n, c]) \<longrightarrow>
         decrypt P s1 clock token = decrypt P s clock token) \<and>
      (\<forall>token. fst (encrypt P s1 clock' g payload options) = Inr token \<longrightarrow>
         (\<exists>n c. token = frame newId n c))"
  proof
    assume a: "store_ok s \<and> rotate s newId newSecret = (Inr (), s1)"
    show "secret_of s1 newId = Some newSecret \<and>
      currentKeyId s1 = Some newId \<and>
      (\<forall>k. k \<noteq> newId \<longrightarrow> secret_of s1 k = secret_of s k) \<and>
      (\<forall>token. (\<forall>p v n c. split_dot token \<noteq> [p, v, newId, n, c]) \<longrightarrow>
         decrypt P s1 clock token = decrypt P s clock token) \<and>
      (\<forall>token. fst (encrypt P s1 clock' g payload options) = Inr token \<longrightarrow>
         (\<exists>n c. token = frame newId n c))"
      by (rule 4[OF conjunct1[OF a] conjunct2[OF a]])
  qed
  show ?thesis
    by (intro conjI) (rule 1, rule 2, rule 3, rule 5)
qed

text \<open>
  Rotating from \<open>k1\<close> to \<open>k2\<close>: both secrets are stored, \<open>k2\<close> is current, and the token
  sealed under \<open>k1\<close> still decrypts.
\<close>

theorem rotate_adds_and_selects_witness:
  "rotate store1 ''k2'' other_key = (Inr (), store2) \<and>
   secret_of store2 ''k2'' = Some other_key \<and>
   secret_of store2 ''k1'' = Some good_key \<and>
   currentKeyId store2 = Some ''k2'' \<and>
   decrypt ref_platform store2 5000000 token2 = Inr (JObject claims2)"
proof -
  have rot: "rotate store1 ''k2'' other_key = (Inr (), store2)"
    by (simp add: rotate_accept[OF other_key_ok] store1_eq store2_eq)
  obtain ct where seg: "split_dot token2 =
      [TECTO_PREFIX, TECTO_VERSION, ''k1'', ref_encode (encrypt_nonce options2 rng0), ref_encode ct]"
    using token2_segments by blast
  have nk2: "\<forall>p v n c. split_dot token2 \<noteq> [p, v, ''k2'', n, c]"
    by (simp add: seg)
  have s1: "secret_of store1 ''k1'' = Some good_key"
    by (simp add: secret_of_def store1_eq)
  note T = rotate_adds_and_selects[of store1 "''k2''" other_key store2 ref_platform 5000000
      0 rng0 payload1 options1]
  have a: "secret_of store2 ''k2'' = Some other_key" "currentKeyId store2 = Some ''k2''"
    using T store1_ok rot by simp_all
  have b: "secret_of store2 ''k1'' = secret_of store1 ''k1''"
    using T store1_ok rot by simp
  have c: "decrypt ref_platform store2 5000000 token2 = decrypt ref_platform store1 5000000 token2"
    using T store1_ok rot nk2 by simp
  have d: "decrypt ref_platform store1 5000000 token2 = Inr (JObject claims2)"
    by (simp add: token2_decrypt check_time_claims_def check_nbf_def get_prop_def claims2_def)
  show ?thesis using rot a b c d s1 by simp
qed

lemma ref_tag_first:
  "length key = 32 \<Longrightarrow> length nonce = 24 \<Longrightarrow> ref_tag key nonce ! 0 = key ! 0 XOR nonce ! 0"
  by (simp add: ref_tag_def)

lemma token2_sealed:
  "\<exists>ct. split_dot token2 =
          [TECTO_PREFIX, TECTO_VERSION, ''k1'', ref_encode (encrypt_nonce options2 rng0), ref_encode ct] \<and>
        ref_seal good_key (encrypt_nonce options2 rng0)
          (ref_utf8_encode (ref_stringify (JObject claims2))) = Some ct"
proof -
  obtain ct0 where t0: "token2 = frame ''k1'' (ref_encode (encrypt_nonce options2 rng0)) (ref_encode ct0)"
    using token2_opens by blast
  have e: "fst (encrypt ref_platform store1 1000000 rng0 payload1 options2) = Inr token2"
    using t0 token2_opens
    by (cases "fst (encrypt ref_platform store1 1000000 rng0 payload1 options2)")
      (auto simp: token2_def frame_def)
  have j: "fst (resolve_jti options2 rng0) = ''id1''"
    by (simp add: resolve_jti_def opt_def options2_def)
  from encrypt_returns[OF e] obtain kid key cl ct where kid: "currentKeyId store1 = Some kid"
    and key: "map_of (keys store1) kid = Some key"
    and cl: "encrypt_claims ref_platform payload1 options2 (1000000 div 1000) (fst (resolve_jti options2 rng0)) = Inr cl"
    and seal: "xchacha20poly1305_encrypt ref_platform (buffers store1 key) (encrypt_nonce options2 rng0)
             (TextEncoder_encode ref_platform (JSON_stringify ref_platform (JObject cl))) = Some ct"
    and t: "token2 = frame kid (base64url_encode ref_platform (encrypt_nonce options2 rng0))
             (base64url_encode ref_platform ct)"
    by (elim exE conjE)
  have k: "kid = ''k1''" using kid store1_current by simp
  have k0: "key = 0" using key k store1_k1 by simp
  have c: "cl = claims2" using cl by (simp add: j encrypt_claims2)
  have "split_dot token2 =
      [TECTO_PREFIX, TECTO_VERSION, ''k1'', ref_encode (encrypt_nonce options2 rng0), ref_encode ct]"
    by (simp add: t k ref_platform_def split_dot_frame split_dot_no_dot[OF ref_encode_no_dot])
  moreover have "ref_seal good_key (encrypt_nonce options2 rng0)
          (ref_utf8_encode (ref_stringify (JObject claims2))) = Some ct"
    using seal by (simp add: k0 c store1_k1 ref_platform_def)
  ultimately show ?thesis by blast
qed

text \<open>
  Rotating from \<open>k1\<close> to \<open>k1\<close> with another secret: the bytes stored under \<open>k1\<close> change,
  and the token sealed before the rotation is refused after it.
\<close>

theorem rotate_counterexample:
  "secret_of store1 ''k1'' = Some good_key \<and>
   fst (rotate store1 ''k1'' other_key) = Inr () \<and>
   secret_of (snd (rotate store1 ''k1'' other_key)) ''k1'' = Some other_key \<and>
   other_key \<noteq> good_key \<and>
   decrypt ref_platform store1 5000000 token2 = Inr (JObject claims2) \<and>
   decrypt ref_platform (snd (rotate store1 ''k1'' other_key)) 5000000 token2 =
     Inl InvalidSignatureError"
proof -
  let ?s = "snd (rotate store1 ''k1'' other_key)"
  have s: "?s = \<lparr>buffers = (\<lambda>r. [])(0 := good_key, 1 := other_key), fresh = 2,
             keys = [(''k1'', 1)], currentKeyId = Some ''k1''\<rparr>"
    by (simp add: rotate_accept[OF other_key_ok] store1_eq)
  have 1: "secret_of store1 ''k1'' = Some good_key" by (simp add: secret_of_def store1_eq)
  have 2: "fst (rotate store1 ''k1'' other_key) = Inr ()"
    by (simp add: rotate_accept[OF other_key_ok])
  have 3: "secret_of ?s ''k1'' = Some other_key" by (simp add: s secret_of_def)
  have 4: "other_key \<noteq> good_key" by (simp add: other_key_def good_key_def)
  have 5: "decrypt ref_platform store1 5000000 token2 = Inr (JObject claims2)"
    by (simp add: token2_decrypt check_time_claims_def check_nbf_def get_prop_def claims2_def)
  obtain ct where seg: "split_dot token2 =
      [TECTO_PREFIX, TECTO_VERSION, ''k1'', ref_encode (encrypt_nonce options2 rng0), ref_encode ct]"
    and seal: "ref_seal good_key (encrypt_nonce options2 rng0)
          (ref_utf8_encode (ref_stringify (JObject claims2))) = Some ct"
    using token2_sealed by blast
  let ?n = "encrypt_nonce options2 rng0"
  have ln: "length ?n = 24" by (rule length_encrypt_nonce)
  have lg: "length good_key = 32" "length other_key = 32"
    by (simp_all add: good_key_def other_key_def)
  have ct: "ct = map (\<lambda>b. b XOR good_key ! 0) (ref_utf8_encode (ref_stringify (JObject claims2))) @
      ref_tag good_key ?n"
    using seal ln lg by (simp add: ref_seal_def)
  have tl: "drop (length ct - 16) ct = ref_tag good_key ?n"
    by (simp add: ct length_ref_tag[OF lg(1) ln])
  have g0: "good_key ! 0 = 1" "other_key ! 0 = 11"
    by (simp_all add: good_key_def other_key_def)
  have tags: "ref_tag good_key ?n \<noteq> ref_tag other_key ?n"
  proof
    assume "ref_tag good_key ?n = ref_tag other_key ?n"
    then have "ref_tag good_key ?n ! 0 = ref_tag other_key ?n ! 0" by simp
    then have "1 XOR ?n ! 0 = 11 XOR ?n ! 0"
      unfolding ref_tag_first[OF lg(1) ln] ref_tag_first[OF lg(2) ln] g0 .
    then have "(1 XOR ?n ! 0) XOR ?n ! 0 = (11 XOR ?n ! 0) XOR ?n ! 0" by simp
    then have "(1::byte) = 11" unfolding xor_twice .
    then show False by simp
  qed
  have op: "ref_open other_key ?n ct = None"
    using tags by (simp add: ref_open_def tl)
  have sec: "secret_of ?s ''k1'' = Some other_key" by (rule 3)
  have 6: "decrypt ref_platform ?s 5000000 token2 = Inl InvalidSignatureError"
    by (simp add: decrypt_via_secret[OF seg] sec ref_platform_def ref_decode_encode op
        length_encrypt_nonce NONCE_LENGTH_def)
  show ?thesis using 1 2 3 4 5 6 by blast
qed

end
